theory Spec2Isabelle
  imports Main "HOL-Library.Word" "HOL-Library.Sublist"
begin

unbundle bit_operations_syntax

section \<open>The outside world: file system and SQL driver\<close>

text \<open>
  The scoped resources of the repository sequence calls to the Go standard library
  (\<^verbatim>\<open>os\<close>, \<^verbatim>\<open>io/ioutil\<close>, \<^verbatim>\<open>database/sql\<close>). Those calls are the
  only effects of the code. Each call is recorded in a log, and its outcome is decided by
  the environment as an arbitrary function of the log so far and of the call itself, so a
  statement for all worlds is a statement for every outcome of every primitive.
  A Go \<^verbatim>\<open>error\<close> result is an \<open>error option\<close>, \<open>None\<close> being \<^verbatim>\<open>nil\<close>; a
  result pair \<^verbatim>\<open>(handle, error)\<close> is a sum, \<open>Inl\<close> being the error.
\<close>

datatype error = Error string

datatype os_file = File (fd: nat) (Name: string)
datatype db = DB nat
datatype tx = Tx nat
datatype rows = Rows nat

datatype call =
    OsOpenFile string int "32 word"
  | IoutilTempFile string string
  | FileWrite os_file string
  | FileClose os_file
  | OsRemove string
  | SqlOpen string string
  | DBClose db
  | DBBegin db
  | TxCommit tx
  | TxRollback tx
  | TxQuery tx string "string list"
  | RowsClose rows

record world =
  trace :: "call list"
  err_of :: "call list \<Rightarrow> call \<Rightarrow> error option"
  file_of :: "call list \<Rightarrow> call \<Rightarrow> error + os_file"
  db_of :: "call list \<Rightarrow> call \<Rightarrow> error + db"
  tx_of :: "call list \<Rightarrow> call \<Rightarrow> error + tx"
  rows_of :: "call list \<Rightarrow> call \<Rightarrow> error + rows"

definition perform :: "call \<Rightarrow> world \<Rightarrow> world" where
  "perform c w = w\<lparr>trace := trace w @ [c]\<rparr>"

definition os_OpenFile :: "string \<Rightarrow> int \<Rightarrow> 32 word \<Rightarrow> world \<Rightarrow> (error + os_file) \<times> world" where
  "os_OpenFile path flags perm w =
     (file_of w (trace w) (OsOpenFile path flags perm), perform (OsOpenFile path flags perm) w)"

definition ioutil_TempFile :: "string \<Rightarrow> string \<Rightarrow> world \<Rightarrow> (error + os_file) \<times> world" where
  "ioutil_TempFile dir pattern w =
     (file_of w (trace w) (IoutilTempFile dir pattern), perform (IoutilTempFile dir pattern) w)"

definition file_Write :: "os_file \<Rightarrow> string \<Rightarrow> world \<Rightarrow> error option \<times> world" where
  "file_Write file bytes w = (err_of w (trace w) (FileWrite file bytes), perform (FileWrite file bytes) w)"

definition file_Close :: "os_file \<Rightarrow> world \<Rightarrow> error option \<times> world" where
  "file_Close file w = (err_of w (trace w) (FileClose file), perform (FileClose file) w)"

definition os_Remove :: "string \<Rightarrow> world \<Rightarrow> error option \<times> world" where
  "os_Remove name w = (err_of w (trace w) (OsRemove name), perform (OsRemove name) w)"

definition sql_Open :: "string \<Rightarrow> string \<Rightarrow> world \<Rightarrow> (error + db) \<times> world" where
  "sql_Open driverName datasourceName w =
     (db_of w (trace w) (SqlOpen driverName datasourceName),
      perform (SqlOpen driverName datasourceName) w)"

definition db_Close :: "db \<Rightarrow> world \<Rightarrow> error option \<times> world" where
  "db_Close d w = (err_of w (trace w) (DBClose d), perform (DBClose d) w)"

definition db_Begin :: "db \<Rightarrow> world \<Rightarrow> (error + tx) \<times> world" where
  "db_Begin d w = (tx_of w (trace w) (DBBegin d), perform (DBBegin d) w)"

definition tx_Commit :: "tx \<Rightarrow> world \<Rightarrow> error option \<times> world" where
  "tx_Commit t w = (err_of w (trace w) (TxCommit t), perform (TxCommit t) w)"

definition tx_Rollback :: "tx \<Rightarrow> world \<Rightarrow> error option \<times> world" where
  "tx_Rollback t w = (err_of w (trace w) (TxRollback t), perform (TxRollback t) w)"

definition tx_Query :: "tx \<Rightarrow> string \<Rightarrow> string list \<Rightarrow> world \<Rightarrow> (error + rows) \<times> world" where
  "tx_Query t query args w =
     (rows_of w (trace w) (TxQuery t query args), perform (TxQuery t query args) w)"

definition rows_Close :: "rows \<Rightarrow> world \<Rightarrow> error option \<times> world" where
  "rows_Close r w = (err_of w (trace w) (RowsClose r), perform (RowsClose r) w)"

text \<open>A work callback receives the handle and returns an error or \<^verbatim>\<open>nil\<close>.\<close>

type_synonym 'h callback = "'h \<Rightarrow> world \<Rightarrow> error option \<times> world"
type_synonym 'h resource = "'h callback \<Rightarrow> world \<Rightarrow> error option \<times> world"

section \<open>resource\_management\_file.go\<close>

text \<open>Linux values of \<^verbatim>\<open>os.O_CREATE\<close> and \<^verbatim>\<open>os.O_WRONLY\<close>.\<close>

definition O_CREATE :: int where "O_CREATE = 64"
definition O_WRONLY :: int where "O_WRONLY = 1"

definition NewFileFlag :: int where
  "NewFileFlag = O_CREATE OR O_WRONLY"

definition OwnerRWOnly :: "32 word" where
  "OwnerRWOnly = 384"

text \<open>
  \<^verbatim>\<open>NewFileResource\<close>: open; on failure return the error; run the callback; if it
  failed, close, drop the close error and return the callback's error; otherwise return
  what close returns.
\<close>

definition NewFileResource :: "string \<Rightarrow> int \<Rightarrow> 32 word \<Rightarrow> os_file resource" where
  "NewFileResource path flags perm callback w =
     (case os_OpenFile path flags perm w of
        (Inl err, w1) \<Rightarrow> (Some err, w1)
      | (Inr file, w1) \<Rightarrow>
          (case callback file w1 of
             (Some err, w2) \<Rightarrow> (case file_Close file w2 of (_, w3) \<Rightarrow> (Some err, w3))
           | (None, w2) \<Rightarrow> file_Close file w2))"

text \<open>
  \<^verbatim>\<open>TempFileResource\<close>: the two \<^verbatim>\<open>defer\<close> statements run when the function
  returns, last deferred first: \<^verbatim>\<open>os.Remove\<close> (whose argument \<^verbatim>\<open>file.Name()\<close> was
  evaluated at the \<^verbatim>\<open>defer\<close>) and then \<^verbatim>\<open>file.Close()\<close>. The result of both is
  dropped; the function returns what the callback returned.
\<close>

definition TempFileResource :: "os_file resource" where
  "TempFileResource callback w =
     (case ioutil_TempFile [] [] w of
        (Inl err, w1) \<Rightarrow> (Some err, w1)
      | (Inr file, w1) \<Rightarrow>
          (let name = Name file in
           case callback file w1 of
             (result, w2) \<Rightarrow>
               (case os_Remove name w2 of
                  (_, w3) \<Rightarrow> (case file_Close file w3 of (_, w4) \<Rightarrow> (result, w4)))))"

text \<open>
  \<^verbatim>\<open>writeFile1_WithErrorHandling\<close>. The function's result is unnamed, so
  \<^verbatim>\<open>return err\<close> copies the value of the local variable \<^verbatim>\<open>err\<close> into the result
  before the deferred closure runs. The closure closes the file and assigns to the local
  variable \<^verbatim>\<open>err\<close>; \<open>deferred\<close> below returns that variable's new value, which no
  statement reads afterwards.
\<close>

definition writeFile1_WithErrorHandling :: "string \<Rightarrow> string \<Rightarrow> world \<Rightarrow> error option \<times> world" where
  "writeFile1_WithErrorHandling path content w =
     (case os_OpenFile path NewFileFlag OwnerRWOnly w of
        (Inl err, w1) \<Rightarrow> (Some err, w1)
      | (Inr file, w1) \<Rightarrow>
          (let deferred = (\<lambda>err w.
                 case file_Close file w of
                   (closeErr, w') \<Rightarrow> (if err = None then closeErr else err, w'))
           in case file_Write file content w1 of
                (Some err, w2) \<Rightarrow>
                  (let result = Some err in
                   case deferred (Some err) w2 of (_, w3) \<Rightarrow> (result, w3))
              | (None, w2) \<Rightarrow>
                  (case file_Write file content w2 of
                     (err, w3) \<Rightarrow>
                       (let result = err in
                        case deferred err w3 of (_, w4) \<Rightarrow> (result, w4)))))"

definition writeFile2 :: "string \<Rightarrow> string \<Rightarrow> world \<Rightarrow> error option \<times> world" where
  "writeFile2 path content =
     NewFileResource path NewFileFlag OwnerRWOnly
       (\<lambda>file w.
          case file_Write file content w of
            (Some err, w1) \<Rightarrow> (Some err, w1)
          | (None, w1) \<Rightarrow> file_Write file content w1)"

section \<open>resource\_management\_sql.go\<close>

definition NewDBResource :: "string \<Rightarrow> string \<Rightarrow> db resource" where
  "NewDBResource driverName datasourceName callback w =
     (case sql_Open driverName datasourceName w of
        (Inl err, w1) \<Rightarrow> (Some err, w1)
      | (Inr d, w1) \<Rightarrow>
          (case callback d w1 of
             (Some err, w2) \<Rightarrow> (case db_Close d w2 of (_, w3) \<Rightarrow> (Some err, w3))
           | (None, w2) \<Rightarrow> db_Close d w2))"

definition RunTransaction :: "db \<Rightarrow> tx resource" where
  "RunTransaction d callback w =
     (case db_Begin d w of
        (Inl err, w1) \<Rightarrow> (Some err, w1)
      | (Inr t, w1) \<Rightarrow>
          (case callback t w1 of
             (Some err, w2) \<Rightarrow> (case tx_Rollback t w2 of (_, w3) \<Rightarrow> (Some err, w3))
           | (None, w2) \<Rightarrow> tx_Commit t w2))"

definition QueryRows :: "tx \<Rightarrow> string \<Rightarrow> string list \<Rightarrow> rows resource" where
  "QueryRows t query args callback w =
     (case tx_Query t query args w of
        (Inl err, w1) \<Rightarrow> (Some err, w1)
      | (Inr r, w1) \<Rightarrow>
          (case callback r w1 of
             (Some err, w2) \<Rightarrow> (case rows_Close r w2 of (_, w3) \<Rightarrow> (Some err, w3))
           | (None, w2) \<Rightarrow> rows_Close r w2))"

section \<open>The five scoped resources, uniformly\<close>

text \<open>
  The repository has five scoped resources, over four handle types. \<open>Use\<close>
  invokes any of them; the callback receives the handle wrapped in \<open>handle\<close>.
\<close>

datatype handle = FileHandle os_file | DBHandle db | TxHandle tx | RowsHandle rows

datatype scoped =
    FileRes string int "32 word"
  | TempFileRes
  | DBRes string string
  | TxRes db
  | RowsRes tx string "string list"

fun Use :: "scoped \<Rightarrow> handle resource" where
  "Use (FileRes path flags perm) callback = NewFileResource path flags perm (\<lambda>f. callback (FileHandle f))"
| "Use TempFileRes callback = TempFileResource (\<lambda>f. callback (FileHandle f))"
| "Use (DBRes driverName datasourceName) callback =
     NewDBResource driverName datasourceName (\<lambda>d. callback (DBHandle d))"
| "Use (TxRes d) callback = RunTransaction d (\<lambda>t. callback (TxHandle t))"
| "Use (RowsRes t query args) callback = QueryRows t query args (\<lambda>r. callback (RowsHandle r))"

text \<open>The acquire step of each resource: the first library call its code makes.\<close>

fun acquire :: "scoped \<Rightarrow> world \<Rightarrow> (error + handle) \<times> world" where
  "acquire (FileRes path flags perm) w = apfst (map_sum id FileHandle) (os_OpenFile path flags perm w)"
| "acquire TempFileRes w = apfst (map_sum id FileHandle) (ioutil_TempFile [] [] w)"
| "acquire (DBRes driverName datasourceName) w =
     apfst (map_sum id DBHandle) (sql_Open driverName datasourceName w)"
| "acquire (TxRes d) w = apfst (map_sum id TxHandle) (db_Begin d w)"
| "acquire (RowsRes t query args) w = apfst (map_sum id RowsHandle) (tx_Query t query args w)"

fun acquire_call :: "scoped \<Rightarrow> call" where
  "acquire_call (FileRes path flags perm) = OsOpenFile path flags perm"
| "acquire_call TempFileRes = IoutilTempFile [] []"
| "acquire_call (DBRes driverName datasourceName) = SqlOpen driverName datasourceName"
| "acquire_call (TxRes d) = DBBegin d"
| "acquire_call (RowsRes t query args) = TxQuery t query args"

text \<open>
  The library calls that end the life of a handle. The release step of the temporary
  file also deletes the file, which is not counted as a release of its own.
\<close>

fun is_release :: "call \<Rightarrow> bool" where
  "is_release (FileClose f) = True"
| "is_release (DBClose d) = True"
| "is_release (TxCommit t) = True"
| "is_release (TxRollback t) = True"
| "is_release (RowsClose r) = True"
| "is_release c = False"

definition releases :: "call list \<Rightarrow> nat" where
  "releases cs = length (filter is_release cs)"

text \<open>
  The calls of the release step of resource \<open>r\<close> on handle \<open>h\<close>, after a callback that
  returned \<open>work\<close>.
\<close>

definition release_calls :: "scoped \<Rightarrow> handle \<Rightarrow> error option \<Rightarrow> call list" where
  "release_calls r h work =
     (case h of
        FileHandle f \<Rightarrow> (if r = TempFileRes then [OsRemove (Name f), FileClose f] else [FileClose f])
      | DBHandle d \<Rightarrow> [DBClose d]
      | TxHandle t \<Rightarrow> [if work = None then TxCommit t else TxRollback t]
      | RowsHandle rw \<Rightarrow> [RowsClose rw])"

text \<open>
  The error combination of section 4.1 of the specification, for a resource \<open>R\<close> with
  acquire step \<open>acq\<close> and release step \<open>rel\<close>: after a successful acquisition the
  invocation ends in the state the release step leaves, and returns the callback's error
  if there is one, the release step's result otherwise.
\<close>

definition error_policy ::
  "(world \<Rightarrow> (error + 'h) \<times> world) \<Rightarrow> ('h \<Rightarrow> world \<Rightarrow> error option \<times> world) \<Rightarrow> 'h resource \<Rightarrow> bool" where
  "error_policy acq rel R \<longleftrightarrow>
     (\<forall>callback w h w1 work w2 released w3.
        acq w = (Inr h, w1) \<longrightarrow> callback h w1 = (work, w2) \<longrightarrow> rel h w2 = (released, w3) \<longrightarrow>
          snd (R callback w) = w3 \<and>
          (work \<noteq> None \<longrightarrow> fst (R callback w) = work) \<and>
          (work = None \<longrightarrow> fst (R callback w) = released))"

text \<open>
  A callback of resource \<open>A\<close> that invokes resource \<open>B a\<close> on the handle \<open>a\<close> it was
  given: it first does \<open>before\<close>, then invokes \<open>B a\<close> with the inner callback, then
  does \<open>after\<close> with what that invocation returned.
\<close>

definition nest ::
  "(handle \<Rightarrow> world \<Rightarrow> world) \<Rightarrow> (handle \<Rightarrow> scoped) \<Rightarrow> (handle \<Rightarrow> handle callback) \<Rightarrow>
   (handle \<Rightarrow> error option \<times> world \<Rightarrow> error option \<times> world) \<Rightarrow> handle callback" where
  "nest before B callback after a w = after a (Use (B a) (callback a) (before a w))"

text \<open>The calls logged from world \<open>w\<close> to a later world \<open>w'\<close>.\<close>

definition calls_between :: "world \<Rightarrow> world \<Rightarrow> call list" where
  "calls_between w w' = drop (length (trace w)) (trace w')"

text \<open>
  The nested temporary files of \<^verbatim>\<open>mainErr\<close>: the outer callback returns what the
  inner invocation returns; the inner callback writes to both files.
\<close>

definition mainErr_tempfiles :: "world \<Rightarrow> error option \<times> world" where
  "mainErr_tempfiles =
     TempFileResource (\<lambda>fd1.
       TempFileResource (\<lambda>fd2 w.
         case file_Write fd1 ''hi!'' w of
           (Some err, w1) \<Rightarrow> (Some err, w1)
         | (None, w1) \<Rightarrow> file_Write fd2 ''hi!'' w1))"

section \<open>Sample worlds and callbacks\<close>

text \<open>
  A world with an empty log in which every call that returns a handle succeeds, the
  handle numbered by the length of the log, and in which the calls that return only an
  error answer as \<open>errs\<close> says.
\<close>

definition sample_world :: "(call \<Rightarrow> error option) \<Rightarrow> world" where
  "sample_world errs =
     \<lparr>trace = [],
      err_of = (\<lambda>cs. errs),
      file_of = (\<lambda>cs c. Inr (File (length cs) (replicate (Suc (length cs)) CHR ''t''))),
      db_of = (\<lambda>cs c. Inr (DB (length cs))),
      tx_of = (\<lambda>cs c. Inr (Tx (length cs))),
      rows_of = (\<lambda>cs c. Inr (Rows (length cs)))\<rparr>"

text \<open>The same world, except that every call that returns a handle fails.\<close>

definition refusing_world :: world where
  "refusing_world =
     \<lparr>trace = [],
      err_of = (\<lambda>cs c. None),
      file_of = (\<lambda>cs c. Inl (Error ''refused'')),
      db_of = (\<lambda>cs c. Inl (Error ''refused'')),
      tx_of = (\<lambda>cs c. Inl (Error ''refused'')),
      rows_of = (\<lambda>cs c. Inl (Error ''refused''))\<rparr>"

definition all_ok :: "call \<Rightarrow> error option" where
  "all_ok c = None"

definition all_fail :: "call \<Rightarrow> error option" where
  "all_fail c = Some (Error ''release failed'')"

fun close_fails :: "call \<Rightarrow> error option" where
  "close_fails (FileClose f) = Some (Error ''close failed'')"
| "close_fails c = None"

definition succeeding :: "'h callback" where
  "succeeding h w = (None, w)"

definition failing :: "'h callback" where
  "failing h w = (Some (Error ''work failed''), w)"

text \<open>
  The two callbacks of \<open>mainErr_tempfiles\<close> on wrapped handles, for \<open>nest\<close>: the outer
  callback does nothing before and after the inner invocation.
\<close>

definition write_hi :: "handle \<Rightarrow> handle callback" where
  "write_hi a b w =
     (case (a, b) of
        (FileHandle fd1, FileHandle fd2) \<Rightarrow>
          (case file_Write fd1 ''hi!'' w of
             (Some err, w1) \<Rightarrow> (Some err, w1)
           | (None, w1) \<Rightarrow> file_Write fd2 ''hi!'' w1)
      | _ \<Rightarrow> (None, w))"

definition nothing_before :: "handle \<Rightarrow> world \<Rightarrow> world" where
  "nothing_before a w = w"

definition nothing_after :: "handle \<Rightarrow> error option \<times> world \<Rightarrow> error option \<times> world" where
  "nothing_after a x = x"

definition temp_again :: "handle \<Rightarrow> scoped" where
  "temp_again a = TempFileRes"

section \<open>The balanced spawner\<close>

text \<open>
  A task is a \<^verbatim>\<open>func()\<close>: it changes the memory it shares with the other goroutines
  and either returns or panics. A task runs as one step.
\<close>

datatype outcome = Returned | Panicked

type_synonym 'm task = "'m \<Rightarrow> outcome \<times> 'm"

text \<open>
  \<^verbatim>\<open>sync.WaitGroup.Add\<close>, of the Go standard library. The counter is an
  \<^verbatim>\<open>int32\<close>: \<^verbatim>\<open>Add\<close> adds \<open>delta\<close> to it, wrapping around, and panics if the
  result read as a signed number is negative. (Its other panic, for an \<^verbatim>\<open>Add\<close> that
  meets a goroutine blocked in \<^verbatim>\<open>Wait\<close>, cannot happen here: only the main goroutine
  calls \<^verbatim>\<open>Run\<close> and \<^verbatim>\<open>Wait\<close>, one after the other.)
\<close>

definition wg_Add :: "int \<Rightarrow> 32 word \<Rightarrow> outcome \<times> 32 word" where
  "wg_Add delta counter =
     (let v = counter + word_of_int delta
      in if sint v < 0 then (Panicked, v) else (Returned, v))"

text \<open>
  The goroutine that \<^verbatim>\<open>Run\<close> starts executes \<^verbatim>\<open>task()\<close> and then
  \<^verbatim>\<open>swg.wg.Add(-1)\<close>. It is \<open>Spawned\<close> before the first statement, \<open>TaskDone\<close>
  between the two and \<open>Exited\<close> after the second.
\<close>

datatype 'm goroutine = Spawned "'m task" | TaskDone | Exited

text \<open>The statements of the main goroutine: calls of \<^verbatim>\<open>Run\<close> and \<^verbatim>\<open>Wait\<close>.\<close>

datatype 'm stmt = Run "'m task" | Wait

record 'm program =
  wg :: "32 word"
  shared :: 'm
  main :: "'m stmt list"
  goroutines :: "'m goroutine list"
  crashed :: bool

text \<open>
  \<^verbatim>\<open>NewSafeWaitGroup\<close> makes a wait group whose counter is zero; the main goroutine
  goes on with the statements \<open>stmts\<close>.
\<close>

definition NewSafeWaitGroup :: "'m \<Rightarrow> 'm stmt list \<Rightarrow> 'm program" where
  "NewSafeWaitGroup m stmts =
     \<lparr>wg = 0, shared = m, main = stmts, goroutines = [], crashed = False\<rparr>"

text \<open>
  \<^verbatim>\<open>Run\<close>: \<^verbatim>\<open>swg.wg.Add(1)\<close>, then the \<^verbatim>\<open>go\<close> statement. A panic that nothing
  recovers ends the whole program.
\<close>

definition safeWaitGroupImpl_Run :: "'m task \<Rightarrow> 'm program \<Rightarrow> 'm program" where
  "safeWaitGroupImpl_Run task s =
     (case wg_Add 1 (wg s) of
        (Panicked, c) \<Rightarrow> s\<lparr>wg := c, crashed := True\<rparr>
      | (Returned, c) \<Rightarrow> s\<lparr>wg := c, goroutines := goroutines s @ [Spawned task]\<rparr>)"

text \<open>\<^verbatim>\<open>Wait\<close> returns when the counter is zero and blocks (\<open>None\<close>) otherwise.\<close>

definition safeWaitGroupImpl_Wait :: "'m program \<Rightarrow> 'm program option" where
  "safeWaitGroupImpl_Wait s = (if wg s = 0 then Some s else None)"

text \<open>The next statement of goroutine \<open>i\<close>; \<open>None\<close> if there is none.\<close>

definition goroutine_step :: "nat \<Rightarrow> 'm program \<Rightarrow> 'm program option" where
  "goroutine_step i s =
     (if i < length (goroutines s) then
        (case goroutines s ! i of
           Spawned task \<Rightarrow>
             (case task (shared s) of
                (Returned, m) \<Rightarrow> Some (s\<lparr>shared := m, goroutines := (goroutines s)[i := TaskDone]\<rparr>)
              | (Panicked, m) \<Rightarrow> Some (s\<lparr>shared := m, crashed := True\<rparr>))
         | TaskDone \<Rightarrow>
             (case wg_Add (- 1) (wg s) of
                (Returned, c) \<Rightarrow> Some (s\<lparr>wg := c, goroutines := (goroutines s)[i := Exited]\<rparr>)
              | (Panicked, c) \<Rightarrow> Some (s\<lparr>wg := c, crashed := True\<rparr>))
         | Exited \<Rightarrow> None)
      else None)"

text \<open>
  The scheduler picks the main goroutine or a spawned one. \<open>step\<close> is \<open>None\<close> when
  the chosen goroutine cannot move: it is blocked, has finished, or the program crashed.
\<close>

datatype choice = Main | Go nat

definition step :: "choice \<Rightarrow> 'm program \<Rightarrow> 'm program option" where
  "step c s =
     (if crashed s then None
      else case c of
        Main \<Rightarrow>
          (case main s of
             [] \<Rightarrow> None
           | Run task # rest \<Rightarrow> Some (safeWaitGroupImpl_Run task (s\<lparr>main := rest\<rparr>))
           | Wait # rest \<Rightarrow> safeWaitGroupImpl_Wait (s\<lparr>main := rest\<rparr>))
      | Go i \<Rightarrow> goroutine_step i s)"

fun exec :: "choice list \<Rightarrow> 'm program \<Rightarrow> 'm program option" where
  "exec [] s = Some s"
| "exec (c # cs) s = (case step c s of None \<Rightarrow> None | Some s' \<Rightarrow> exec cs s')"

text \<open>
  \<^verbatim>\<open>RunGroup\<close>: a new wait group, the submissions of \<^verbatim>\<open>taskRunner\<close> (given as the
  list of the tasks it submits), then \<^verbatim>\<open>Wait\<close>.
\<close>

definition RunGroup :: "'m task list \<Rightarrow> 'm \<Rightarrow> 'm program" where
  "RunGroup taskRunner m = NewSafeWaitGroup m (map Run taskRunner @ [Wait])"

text \<open>
  The fan-out of \<^verbatim>\<open>mainErr\<close>: \<^verbatim>\<open>result[i] = strings.Repeat("*", i)\<close>, which panics
  if the index is out of range, for each \<open>i\<close> below \<^verbatim>\<open>len(result)\<close>, then \<^verbatim>\<open>Wait\<close>.
\<close>

definition star_task :: "nat \<Rightarrow> string list task" where
  "star_task i result =
     (if i < length result then (Returned, result[i := replicate i CHR ''*''])
      else (Panicked, result))"

definition mainErr_spawn :: "string list program" where
  "mainErr_spawn =
     (let result = replicate 10 [] in
      NewSafeWaitGroup result (map (\<lambda>i. Run (star_task i)) [0..<length result] @ [Wait]))"

text \<open>The goroutines that have not run to their end.\<close>

fun running :: "'m goroutine \<Rightarrow> bool" where
  "running Exited = False"
| "running g = True"

definition outstanding :: "'m goroutine list \<Rightarrow> nat" where
  "outstanding gs = length (filter running gs)"

text \<open>A bound on the number of steps a program can still make.\<close>

fun weight :: "'m goroutine \<Rightarrow> nat" where
  "weight (Spawned t) = 2"
| "weight TaskDone = 1"
| "weight Exited = 0"

definition steps_left :: "'m program \<Rightarrow> nat" where
  "steps_left s = 3 * length (main s) + sum_list (map weight (goroutines s))"

text \<open>Sample tasks: one that does nothing, one that panics.\<close>

definition idle_task :: "unit task" where
  "idle_task m = (Returned, m)"

definition panicking_task :: "unit task" where
  "panicking_task m = (Panicked, m)"

text \<open>
  Tasks that return normally and keep \<open>I\<close>, as long as the shared memory satisfies
  \<open>I\<close>.
\<close>

definition normal_on :: "('m \<Rightarrow> bool) \<Rightarrow> 'm task list \<Rightarrow> bool" where
  "normal_on I tasks \<longleftrightarrow> (\<forall>t\<in>set tasks. \<forall>m. I m \<longrightarrow> fst (t m) = Returned \<and> I (snd (t m)))"

text \<open>
  The states of \<open>RunGroup tasks\<close> in which nothing has panicked: the counter is the
  number of goroutines that have not run to their end, goroutine \<open>i\<close> runs task \<open>i\<close>, and
  the main goroutine has the remaining submissions and \<^verbatim>\<open>Wait\<close> before it, or has
  returned from \<^verbatim>\<open>Wait\<close> with all tasks submitted and the counter at zero.
\<close>

definition submitted :: "'m task list \<Rightarrow> 'm program \<Rightarrow> bool" where
  "submitted tasks s \<longleftrightarrow>
     \<not> crashed s \<and>
     sint (wg s) = int (outstanding (goroutines s)) \<and>
     length (goroutines s) \<le> length tasks \<and>
     (\<forall>i<length (goroutines s). \<forall>t. goroutines s ! i = Spawned t \<longrightarrow> t = tasks ! i) \<and>
     (if main s = [] then length (goroutines s) = length tasks \<and> wg s = 0
      else main s = map Run (drop (length (goroutines s)) tasks) @ [Wait])"

text \<open>
  A program of \<open>RunGroup tasks\<close> that has panicked has not returned from \<^verbatim>\<open>Wait\<close>,
  and it panicked in a task or in a \<^verbatim>\<open>Run\<close> that found the counter at its maximum.
\<close>

definition panicked :: "('m \<Rightarrow> bool) \<Rightarrow> 'm task list \<Rightarrow> 'm program \<Rightarrow> bool" where
  "panicked I tasks s \<longleftrightarrow>
     crashed s \<and> main s \<noteq> [] \<and> (2147483648 \<le> length tasks \<or> \<not> normal_on I tasks)"

text \<open>In the fan-out of \<^verbatim>\<open>mainErr\<close>, a goroutine whose task has run has written its slot.\<close>

definition stars_written :: "string list program \<Rightarrow> bool" where
  "stars_written s \<longleftrightarrow>
     (\<forall>i<length (goroutines s).
        (\<exists>t. goroutines s ! i = Spawned t) \<or> shared s ! i = replicate i CHR ''*'')"

text \<open>
  A schedule of the fan-out of \<^verbatim>\<open>mainErr\<close>: the ten submissions interleaved with the
  first goroutines, the tasks of the others in descending order, then \<^verbatim>\<open>Wait\<close>.
\<close>

definition mainErr_schedule :: "choice list" where
  "mainErr_schedule =
     [Main, Main, Go 1, Main, Go 0, Go 1, Main, Main, Main, Main, Main, Main, Main,
      Go 9, Go 8, Go 7, Go 6, Go 5, Go 4, Go 3, Go 2,
      Go 2, Go 3, Go 4, Go 5, Go 6, Go 7, Go 8, Go 9, Go 0, Main]"

text \<open>
  The largest value of the counter, and a program that submits one task more than
  that, none of which has started when the last one is submitted.
\<close>

definition max_int32 :: nat where
  "max_int32 = 2147483647"

definition crowded :: "unit program" where
  "crowded =
     \<lparr>wg = 2147483647, shared = (), main = [Run idle_task, Wait],
      goroutines = replicate max_int32 (Spawned idle_task), crashed = False\<rparr>"

section \<open>Properties of the scoped resources\<close>

lemma trace_perform [simp]: "trace (perform c w) = trace w @ [c]"
  by (simp add: perform_def)

lemmas prim_defs =
  os_OpenFile_def ioutil_TempFile_def file_Write_def file_Close_def os_Remove_def
  sql_Open_def db_Close_def db_Begin_def tx_Commit_def tx_Rollback_def tx_Query_def
  rows_Close_def

lemmas resource_defs =
  NewFileResource_def TempFileResource_def NewDBResource_def RunTransaction_def QueryRows_def

lemma releases_append [simp]: "releases (xs @ ys) = releases xs + releases ys"
  by (simp add: releases_def)

lemma releases_Nil [simp]: "releases [] = 0"
  by (simp add: releases_def)

lemma releases_Cons [simp]: "releases (c # cs) = (if is_release c then 1 else 0) + releases cs"
  by (simp add: releases_def)

lemma sample_world_simps [simp]:
  "trace (sample_world errs) = []"
  "err_of (sample_world errs) = (\<lambda>cs. errs)"
  "file_of (sample_world errs) = (\<lambda>cs c. Inr (File (length cs) (replicate (Suc (length cs)) CHR ''t'')))"
  "db_of (sample_world errs) = (\<lambda>cs c. Inr (DB (length cs)))"
  "tx_of (sample_world errs) = (\<lambda>cs c. Inr (Tx (length cs)))"
  "rows_of (sample_world errs) = (\<lambda>cs c. Inr (Rows (length cs)))"
  by (simp_all add: sample_world_def)

lemma perform_simps [simp]:
  "err_of (perform c w) = err_of w"
  "file_of (perform c w) = file_of w"
  "db_of (perform c w) = db_of w"
  "tx_of (perform c w) = tx_of w"
  "rows_of (perform c w) = rows_of w"
  by (simp_all add: perform_def)

text \<open>
  C1. For the file resource, the database resource and the cursor resource, when
  acquisition succeeds: the release step always runs after the callback, also when the
  callback failed; the callback's error is returned if there is one (whatever the release
  step returned), otherwise the release step's error, otherwise no error.
\<close>

theorem scoped_error_policy:
  "error_policy (os_OpenFile path flags perm) file_Close (NewFileResource path flags perm) \<and>
   error_policy (sql_Open driverName datasourceName) db_Close
     (NewDBResource driverName datasourceName) \<and>
   error_policy (tx_Query t query args) rows_Close (QueryRows t query args)"
  by (auto simp: error_policy_def resource_defs split: prod.splits sum.splits option.splits)

theorem scoped_error_policy_witness:
  "fst (NewFileResource ''p'' NewFileFlag OwnerRWOnly failing (sample_world all_fail)) =
     Some (Error ''work failed'') \<and>
   trace (snd (NewFileResource ''p'' NewFileFlag OwnerRWOnly failing (sample_world all_fail))) =
     [OsOpenFile ''p'' NewFileFlag OwnerRWOnly, FileClose (File 0 ''t'')] \<and>
   fst (NewDBResource ''sqlite3'' ''demo'' succeeding (sample_world all_fail)) =
     Some (Error ''release failed'') \<and>
   trace (snd (NewDBResource ''sqlite3'' ''demo'' succeeding (sample_world all_fail))) =
     [SqlOpen ''sqlite3'' ''demo'', DBClose (DB 0)] \<and>
   fst (QueryRows (Tx 0) ''q'' [] succeeding (sample_world all_ok)) = None \<and>
   trace (snd (QueryRows (Tx 0) ''q'' [] succeeding (sample_world all_ok))) =
     [TxQuery (Tx 0) ''q'' [], RowsClose (Rows 0)]"
proof -
  note pol = scoped_error_policy [of "''p''" NewFileFlag OwnerRWOnly "''sqlite3''" "''demo''"
      "Tx 0" "''q''" "[]"]
  let ?bad = "sample_world all_fail" and ?good = "sample_world all_ok"
  have f1: "os_OpenFile ''p'' NewFileFlag OwnerRWOnly ?bad =
      (Inr (File 0 ''t''), perform (OsOpenFile ''p'' NewFileFlag OwnerRWOnly) ?bad)"
    by (simp add: os_OpenFile_def)
  have f2: "failing (File 0 ''t'') (perform (OsOpenFile ''p'' NewFileFlag OwnerRWOnly) ?bad) =
      (Some (Error ''work failed''), perform (OsOpenFile ''p'' NewFileFlag OwnerRWOnly) ?bad)"
    by (simp add: failing_def)
  have f3: "file_Close (File 0 ''t'') (perform (OsOpenFile ''p'' NewFileFlag OwnerRWOnly) ?bad) =
      (Some (Error ''release failed''),
       perform (FileClose (File 0 ''t'')) (perform (OsOpenFile ''p'' NewFileFlag OwnerRWOnly) ?bad))"
    by (simp add: file_Close_def all_fail_def)
  have d1: "sql_Open ''sqlite3'' ''demo'' ?bad = (Inr (DB 0), perform (SqlOpen ''sqlite3'' ''demo'') ?bad)"
    by (simp add: sql_Open_def)
  have d2: "succeeding (DB 0) (perform (SqlOpen ''sqlite3'' ''demo'') ?bad) =
      (None, perform (SqlOpen ''sqlite3'' ''demo'') ?bad)"
    by (simp add: succeeding_def)
  have d3: "db_Close (DB 0) (perform (SqlOpen ''sqlite3'' ''demo'') ?bad) =
      (Some (Error ''release failed''),
       perform (DBClose (DB 0)) (perform (SqlOpen ''sqlite3'' ''demo'') ?bad))"
    by (simp add: db_Close_def all_fail_def)
  have r1: "tx_Query (Tx 0) ''q'' [] ?good = (Inr (Rows 0), perform (TxQuery (Tx 0) ''q'' []) ?good)"
    by (simp add: tx_Query_def)
  have r2: "succeeding (Rows 0) (perform (TxQuery (Tx 0) ''q'' []) ?good) =
      (None, perform (TxQuery (Tx 0) ''q'' []) ?good)"
    by (simp add: succeeding_def)
  have r3: "rows_Close (Rows 0) (perform (TxQuery (Tx 0) ''q'' []) ?good) =
      (None, perform (RowsClose (Rows 0)) (perform (TxQuery (Tx 0) ''q'' []) ?good))"
    by (simp add: rows_Close_def all_ok_def)
  have p1: "error_policy (os_OpenFile ''p'' NewFileFlag OwnerRWOnly) file_Close
      (NewFileResource ''p'' NewFileFlag OwnerRWOnly)"
    and p2: "error_policy (sql_Open ''sqlite3'' ''demo'') db_Close (NewDBResource ''sqlite3'' ''demo'')"
    and p3: "error_policy (tx_Query (Tx 0) ''q'' []) rows_Close (QueryRows (Tx 0) ''q'' [])"
    using pol by simp_all
  from p1 [unfolded error_policy_def, rule_format, of ?bad _ _ failing, OF f1 f2 f3]
  have "snd (NewFileResource ''p'' NewFileFlag OwnerRWOnly failing ?bad) =
       perform (FileClose (File 0 ''t'')) (perform (OsOpenFile ''p'' NewFileFlag OwnerRWOnly) ?bad)"
    and "fst (NewFileResource ''p'' NewFileFlag OwnerRWOnly failing ?bad) = Some (Error ''work failed'')"
    by simp_all
  moreover from p2 [unfolded error_policy_def, rule_format, of ?bad _ _ succeeding, OF d1 d2 d3]
  have "snd (NewDBResource ''sqlite3'' ''demo'' succeeding ?bad) =
       perform (DBClose (DB 0)) (perform (SqlOpen ''sqlite3'' ''demo'') ?bad)"
    and "fst (NewDBResource ''sqlite3'' ''demo'' succeeding ?bad) = Some (Error ''release failed'')"
    by simp_all
  moreover from p3 [unfolded error_policy_def, rule_format, of ?good _ _ succeeding, OF r1 r2 r3]
  have "snd (QueryRows (Tx 0) ''q'' [] succeeding ?good) =
       perform (RowsClose (Rows 0)) (perform (TxQuery (Tx 0) ''q'' []) ?good)"
    and "fst (QueryRows (Tx 0) ''q'' [] succeeding ?good) = None"
    by simp_all
  ultimately show ?thesis by simp
qed

text \<open>
  C2. For each of the five scoped resources, every callback and every world: if the
  acquire step succeeds, it is the only call made before the callback starts, the calls
  made after the callback returns are exactly the calls of one release step, and the
  number of release calls in the log grows by exactly one over the callback's log,
  whatever the callback returned; if the acquire step fails, it is the only call made and
  the number of release calls does not grow.
\<close>

theorem release_exactly_once:
  "(\<forall>h w1. acquire r w = (Inr h, w1) \<longrightarrow>
      trace w1 = trace w @ [acquire_call r] \<and>
      trace (snd (Use r callback w)) =
        trace (snd (callback h w1)) @ release_calls r h (fst (callback h w1)) \<and>
      releases (trace (snd (Use r callback w))) = releases (trace (snd (callback h w1))) + 1) \<and>
   (\<forall>e w1. acquire r w = (Inl e, w1) \<longrightarrow>
      trace (snd (Use r callback w)) = trace w @ [acquire_call r] \<and>
      releases (trace (snd (Use r callback w))) = releases (trace w))"
  by (cases r) (auto simp: resource_defs prim_defs release_calls_def split: prod.splits sum.splits option.splits)

theorem release_exactly_once_witness:
  "releases (trace (snd (Use (TxRes (DB 0)) failing (sample_world all_ok)))) = 1 \<and>
   trace (snd (Use (TxRes (DB 0)) failing (sample_world all_ok))) = [DBBegin (DB 0), TxRollback (Tx 0)] \<and>
   releases (trace (snd (Use (TxRes (DB 0)) failing refusing_world))) = 0 \<and>
   trace (snd (Use (TxRes (DB 0)) failing refusing_world)) = [DBBegin (DB 0)]"
proof -
  let ?good = "sample_world all_ok"
  have a: "acquire (TxRes (DB 0)) ?good = (Inr (TxHandle (Tx 0)), perform (DBBegin (DB 0)) ?good)"
    by (simp add: db_Begin_def)
  have b: "acquire (TxRes (DB 0)) refusing_world =
      (Inl (Error ''refused''), perform (DBBegin (DB 0)) refusing_world)"
    by (simp add: db_Begin_def refusing_world_def)
  have c: "failing (TxHandle (Tx 0)) (perform (DBBegin (DB 0)) ?good) =
      (Some (Error ''work failed''), perform (DBBegin (DB 0)) ?good)"
    by (simp add: failing_def)
  have t: "trace refusing_world = []"
    by (simp add: refusing_world_def)
  note ok = release_exactly_once [of "TxRes (DB 0)" ?good failing, THEN conjunct1, rule_format, OF a]
  note no = release_exactly_once [of "TxRes (DB 0)" refusing_world failing, THEN conjunct2,
      rule_format, OF b]
  have "trace (snd (Use (TxRes (DB 0)) failing ?good)) = [DBBegin (DB 0), TxRollback (Tx 0)]"
    using ok [THEN conjunct2, THEN conjunct1] by (simp add: c release_calls_def)
  moreover have "releases (trace (snd (Use (TxRes (DB 0)) failing ?good))) = 1"
    using ok [THEN conjunct2, THEN conjunct2] by (simp add: c)
  moreover have "trace (snd (Use (TxRes (DB 0)) failing refusing_world)) = [DBBegin (DB 0)]"
    using no [THEN conjunct1] by (simp add: t)
  moreover have "releases (trace (snd (Use (TxRes (DB 0)) failing refusing_world))) = 0"
    using no [THEN conjunct2] by (simp add: t)
  ultimately show ?thesis by simp
qed

text \<open>
  C4, as the code has it. When the temporary file was created, the release step first
  deletes the file, under the name read before the callback ran, and then closes the
  handle; both calls are made whatever the other one and the callback returned, and the
  invocation returns what the callback returned.
\<close>

theorem tempfile_release_order:
  assumes "ioutil_TempFile [] [] w = (Inr f, w1)" and "callback f w1 = (work, w2)"
  shows "TempFileResource callback w = (work, perform (FileClose f) (perform (OsRemove (Name f)) w2)) \<and>
         trace (snd (TempFileResource callback w)) = trace w2 @ [OsRemove (Name f), FileClose f]"
  using assms by (simp add: TempFileResource_def os_Remove_def file_Close_def)

theorem tempfile_release_order_witness:
  "trace (snd (TempFileResource succeeding (sample_world all_fail))) =
     [IoutilTempFile [] [], OsRemove ''t'', FileClose (File 0 ''t'')]"
proof -
  let ?bad = "sample_world all_fail"
  have a: "ioutil_TempFile [] [] ?bad = (Inr (File 0 ''t''), perform (IoutilTempFile [] []) ?bad)"
    by (simp add: ioutil_TempFile_def)
  have b: "succeeding (File 0 ''t'') (perform (IoutilTempFile [] []) ?bad) =
      (None, perform (IoutilTempFile [] []) ?bad)"
    by (simp add: succeeding_def)
  from tempfile_release_order [of ?bad _ _ succeeding, OF a b] show ?thesis by simp
qed

text \<open>
  C4, as the specification states it (close first, then delete), fails: with a callback
  that does nothing and a world where every call succeeds, the log is create, delete,
  close.
\<close>

theorem tempfile_close_then_delete_counterexample:
  "trace (snd (TempFileResource succeeding (sample_world all_ok))) =
     [IoutilTempFile [] [], OsRemove ''t'', FileClose (File 0 ''t'')] \<and>
   trace (snd (TempFileResource succeeding (sample_world all_ok))) \<noteq>
     [IoutilTempFile [] [], FileClose (File 0 ''t''), OsRemove ''t'']"
  by (simp add: TempFileResource_def prim_defs succeeding_def)

text \<open>
  C5. The temporary-file resource at a world where the file is created, the callback
  succeeds, and both the delete and the close fail: the invocation returns no error.
\<close>

theorem tempfile_release_error_dropped:
  "fst (TempFileResource succeeding (sample_world all_fail)) = None \<and>
   trace (snd (TempFileResource succeeding (sample_world all_fail))) =
     [IoutilTempFile [] [], OsRemove ''t'', FileClose (File 0 ''t'')] \<and>
   err_of (sample_world all_fail) [IoutilTempFile [] []] (OsRemove ''t'') = Some (Error ''release failed'') \<and>
   err_of (sample_world all_fail) [IoutilTempFile [] [], OsRemove ''t''] (FileClose (File 0 ''t'')) =
     Some (Error ''release failed'')"
  by (simp add: TempFileResource_def prim_defs succeeding_def all_fail_def)

text \<open>
  C6. When \<^verbatim>\<open>Begin\<close> succeeded: if the callback failed, the only call after it is
  \<^verbatim>\<open>Rollback\<close> and the callback's error is returned; if the callback succeeded, the
  only call after it is \<^verbatim>\<open>Commit\<close> and what \<^verbatim>\<open>Commit\<close> returned is returned.
\<close>

theorem transaction_commit_or_rollback:
  assumes "db_Begin d w = (Inr t, w1)" and "callback t w1 = (work, w2)"
  shows "(work \<noteq> None \<longrightarrow>
            fst (RunTransaction d callback w) = work \<and>
            trace (snd (RunTransaction d callback w)) = trace w2 @ [TxRollback t]) \<and>
         (work = None \<longrightarrow>
            fst (RunTransaction d callback w) = fst (tx_Commit t w2) \<and>
            trace (snd (RunTransaction d callback w)) = trace w2 @ [TxCommit t])"
  using assms by (auto simp: RunTransaction_def tx_Commit_def tx_Rollback_def)

theorem transaction_commit_or_rollback_witness:
  "fst (RunTransaction (DB 0) failing (sample_world all_ok)) = Some (Error ''work failed'') \<and>
   trace (snd (RunTransaction (DB 0) failing (sample_world all_ok))) =
     [DBBegin (DB 0), TxRollback (Tx 0)] \<and>
   fst (RunTransaction (DB 0) succeeding (sample_world all_fail)) = Some (Error ''release failed'') \<and>
   trace (snd (RunTransaction (DB 0) succeeding (sample_world all_fail))) =
     [DBBegin (DB 0), TxCommit (Tx 0)]"
proof -
  let ?good = "sample_world all_ok" and ?bad = "sample_world all_fail"
  have a: "db_Begin (DB 0) ?good = (Inr (Tx 0), perform (DBBegin (DB 0)) ?good)"
    by (simp add: db_Begin_def)
  have b: "failing (Tx 0) (perform (DBBegin (DB 0)) ?good) =
      (Some (Error ''work failed''), perform (DBBegin (DB 0)) ?good)"
    by (simp add: failing_def)
  have c: "db_Begin (DB 0) ?bad = (Inr (Tx 0), perform (DBBegin (DB 0)) ?bad)"
    by (simp add: db_Begin_def)
  have d: "succeeding (Tx 0) (perform (DBBegin (DB 0)) ?bad) = (None, perform (DBBegin (DB 0)) ?bad)"
    by (simp add: succeeding_def)
  from transaction_commit_or_rollback [of "DB 0" ?good "Tx 0" _ failing, OF a b]
    transaction_commit_or_rollback [of "DB 0" ?bad "Tx 0" _ succeeding, OF c d]
  show ?thesis
    by (simp add: tx_Commit_def all_fail_def)
qed

text \<open>
  C7. For each of the five scoped resources: if the acquire step fails, the invocation
  returns that error in the state the acquire step left, whatever the callback is; the
  acquire call is the only call logged, so neither the callback nor the release step ran.
\<close>

theorem acquire_failure:
  "acquire r w = (Inl e, w1) \<Longrightarrow>
     Use r callback w = (Some e, w1) \<and> trace w1 = trace w @ [acquire_call r]"
  by (cases r) (auto simp: resource_defs prim_defs split: prod.splits sum.splits)

theorem acquire_failure_witness:
  "acquire TempFileRes refusing_world = (Inl (Error ''refused''), perform (IoutilTempFile [] []) refusing_world) \<and>
   Use TempFileRes succeeding refusing_world = (Some (Error ''refused''), perform (IoutilTempFile [] []) refusing_world) \<and>
   trace (perform (IoutilTempFile [] []) refusing_world) = [IoutilTempFile [] []]"
proof -
  have a: "acquire TempFileRes refusing_world =
      (Inl (Error ''refused''), perform (IoutilTempFile [] []) refusing_world)"
    by (simp add: ioutil_TempFile_def refusing_world_def)
  from acquire_failure [OF a, of succeeding] a show ?thesis
    by (simp add: refusing_world_def)
qed

text \<open>
  The two ways of writing a file make the same library calls in every world.
\<close>

lemma writeFile_same_calls:
  "snd (writeFile1_WithErrorHandling path content w) = snd (writeFile2 path content w)"
  by (simp add: writeFile1_WithErrorHandling_def writeFile2_def NewFileResource_def prim_defs
      split: prod.splits sum.splits option.splits)

text \<open>
  C10. At a world where the file opens, both writes succeed and the close fails,
  \<^verbatim>\<open>writeFile2\<close> returns the close error and \<^verbatim>\<open>writeFile1_WithErrorHandling\<close>
  returns no error, after the same calls.
\<close>

theorem writeFile_close_error:
  "fst (writeFile1_WithErrorHandling ''p'' ''c'' (sample_world close_fails)) = None \<and>
   fst (writeFile2 ''p'' ''c'' (sample_world close_fails)) = Some (Error ''close failed'') \<and>
   trace (snd (writeFile1_WithErrorHandling ''p'' ''c'' (sample_world close_fails))) =
   trace (snd (writeFile2 ''p'' ''c'' (sample_world close_fails)))"
  by (simp add: writeFile1_WithErrorHandling_def writeFile2_def NewFileResource_def prim_defs)

lemma Use_acquired:
  assumes "acquire r w = (Inr h, w1)"
  shows "trace w1 = trace w @ [acquire_call r]"
    and "trace (snd (Use r callback w)) =
         trace (snd (callback h w1)) @ release_calls r h (fst (callback h w1))"
  using assms
  by (cases r; auto simp: resource_defs prim_defs release_calls_def
      split: prod.splits sum.splits option.splits)+

lemma prefix_calls_between: "prefix (trace w) (trace w') \<Longrightarrow> trace w' = trace w @ calls_between w w'"
  by (auto simp: calls_between_def prefix_def)

text \<open>
  C8. Resource \<open>B a\<close> invoked inside the callback of resource \<open>A\<close>, both acquisitions
  succeeding, and the parts of the callbacks only adding calls to the log. The log when
  the invocation of \<open>B a\<close> returns is: the acquire call of \<open>A\<close>, what the outer callback
  did before, the acquire call of \<open>B a\<close>, what the inner callback did, the release calls
  of \<open>B a\<close>. The outer callback returns after that, and the release calls of \<open>A\<close> come
  after the outer callback has returned.
\<close>

theorem nested_resources:
  assumes A: "acquire A w = (Inr a, w1)"
    and B: "acquire (B a) (before a w1) = (Inr b, w2)"
    and cb: "callback a b w2 = (work, w3)"
    and pre: "prefix (trace w1) (trace (before a w1))"
    and body: "prefix (trace w2) (trace w3)"
    and post: "prefix (trace (snd (Use (B a) (callback a) (before a w1))))
                 (trace (snd (after a (Use (B a) (callback a) (before a w1)))))"
  shows "trace (snd (Use (B a) (callback a) (before a w1))) =
           trace w @ [acquire_call A] @ calls_between w1 (before a w1) @
           [acquire_call (B a)] @ calls_between w2 w3 @ release_calls (B a) b work \<and>
         trace (snd (nest before B callback after a w1)) =
           trace (snd (Use (B a) (callback a) (before a w1))) @
           calls_between (snd (Use (B a) (callback a) (before a w1)))
             (snd (after a (Use (B a) (callback a) (before a w1)))) \<and>
         trace (snd (Use A (nest before B callback after) w)) =
           trace (snd (nest before B callback after a w1)) @
           release_calls A a (fst (nest before B callback after a w1))"
proof -
  let ?inner = "Use (B a) (callback a) (before a w1)"
  have 1: "trace w1 = trace w @ [acquire_call A]"
    by (rule Use_acquired(1) [OF A])
  have 2: "trace (before a w1) = trace w1 @ calls_between w1 (before a w1)"
    by (rule prefix_calls_between [OF pre])
  have 3: "trace w2 = trace (before a w1) @ [acquire_call (B a)]"
    by (rule Use_acquired(1) [OF B])
  have 4: "trace w3 = trace w2 @ calls_between w2 w3"
    by (rule prefix_calls_between [OF body])
  have 5: "trace (snd ?inner) = trace w3 @ release_calls (B a) b work"
    using Use_acquired(2) [OF B, of "callback a"] cb by simp
  have 6: "trace (snd (after a ?inner)) =
      trace (snd ?inner) @ calls_between (snd ?inner) (snd (after a ?inner))"
    by (rule prefix_calls_between [OF post])
  have 7: "trace (snd (Use A (nest before B callback after) w)) =
      trace (snd (nest before B callback after a w1)) @
      release_calls A a (fst (nest before B callback after a w1))"
    by (rule Use_acquired(2) [OF A])
  show ?thesis
    using 1 2 3 4 5 6 7 by (simp add: nest_def)
qed

lemma write_hi_files:
  "(\<lambda>f. write_hi (FileHandle fd1) (FileHandle f)) =
   (\<lambda>fd2 w. case file_Write fd1 ''hi!'' w of
       (Some err, w1) \<Rightarrow> (Some err, w1)
     | (None, w1) \<Rightarrow> file_Write fd2 ''hi!'' w1)"
  by (intro ext) (simp add: write_hi_def)

lemma nest_files:
  "(\<lambda>f. nest nothing_before temp_again write_hi nothing_after (FileHandle f)) =
   (\<lambda>fd1. TempFileResource (\<lambda>fd2 w. case file_Write fd1 ''hi!'' w of
       (Some err, w1) \<Rightarrow> (Some err, w1)
     | (None, w1) \<Rightarrow> file_Write fd2 ''hi!'' w1))"
  by (intro ext)
    (simp add: nest_def nothing_before_def nothing_after_def temp_again_def write_hi_files)

lemma mainErr_tempfiles_nest:
  "mainErr_tempfiles = Use TempFileRes (nest nothing_before temp_again write_hi nothing_after)"
  by (intro ext) (simp add: mainErr_tempfiles_def nest_files)

theorem nested_resources_witness:
  "trace (snd (mainErr_tempfiles (sample_world all_ok))) =
     [IoutilTempFile [] [], IoutilTempFile [] [],
      FileWrite (File 0 ''t'') ''hi!'', FileWrite (File 1 ''tt'') ''hi!'',
      OsRemove ''tt'', FileClose (File 1 ''tt''),
      OsRemove ''t'', FileClose (File 0 ''t'')]"
proof -
  let ?w = "sample_world all_ok"
  let ?w1 = "perform (IoutilTempFile [] []) ?w"
  let ?w2 = "perform (IoutilTempFile [] []) ?w1"
  let ?w3 = "perform (FileWrite (File 1 ''tt'') ''hi!'') (perform (FileWrite (File 0 ''t'') ''hi!'') ?w2)"
  let ?a = "FileHandle (File 0 ''t'')" and ?b = "FileHandle (File 1 ''tt'')"
  have A: "acquire TempFileRes ?w = (Inr ?a, ?w1)"
    by (simp add: ioutil_TempFile_def)
  have B: "acquire (temp_again ?a) (nothing_before ?a ?w1) = (Inr ?b, ?w2)"
    by (simp add: ioutil_TempFile_def temp_again_def nothing_before_def)
  have cb: "write_hi ?a ?b ?w2 = (None, ?w3)"
    by (simp add: write_hi_def file_Write_def all_ok_def)
  have pre: "prefix (trace ?w1) (trace (nothing_before ?a ?w1))"
    by (simp add: nothing_before_def)
  have body: "prefix (trace ?w2) (trace ?w3)"
    by simp
  have post: "prefix (trace (snd (Use (temp_again ?a) (write_hi ?a) (nothing_before ?a ?w1))))
      (trace (snd (nothing_after ?a (Use (temp_again ?a) (write_hi ?a) (nothing_before ?a ?w1)))))"
    by (simp add: nothing_after_def)
  have fst: "fst (nest nothing_before temp_again write_hi nothing_after ?a ?w1) = None"
    by (simp add: nest_def nothing_before_def nothing_after_def temp_again_def write_hi_def
        TempFileResource_def prim_defs all_ok_def)
  from nested_resources [of TempFileRes ?w ?a ?w1 temp_again nothing_before ?b ?w2 write_hi
      None ?w3 nothing_after, OF A B cb pre body post]
  show ?thesis
    by (simp add: mainErr_tempfiles_nest fst calls_between_def nothing_before_def
        nothing_after_def temp_again_def release_calls_def)
qed

section \<open>Properties of the balanced spawner\<close>

lemma sint_max32: "sint (w :: 32 word) \<le> 2147483647"
  using sint_lt [of w] by simp

lemma sint_min32: "- 2147483648 \<le> sint (w :: 32 word)"
  using sint_ge [of w] by simp

lemma sint_add1: "sint (w :: 32 word) < 2147483647 \<Longrightarrow> sint (w + 1) = sint w + 1"
  using sint_min32 [of w]
  by (simp add: sint_word_ariths signed_take_bit_int_eq_self)

lemma sint_add1_wrap: "sint (w :: 32 word) = 2147483647 \<Longrightarrow> sint (w + 1) < 0"
proof -
  assume a: "sint w = 2147483647"
  have "w = word_of_int (sint w)" by simp
  with a have "w = 2147483647" by simp
  then show ?thesis by simp
qed

lemma sint_sub1: "1 \<le> sint (w :: 32 word) \<Longrightarrow> sint (w - 1) = sint w - 1"
  using sint_max32 [of w]
  by (simp add: sint_word_ariths signed_take_bit_int_eq_self)

lemma sint_zero32: "sint (w :: 32 word) = 0 \<longleftrightarrow> w = 0"
proof
  assume a: "sint w = 0"
  have "w = word_of_int (sint w)" by simp
  with a show "w = 0" by simp
next
  assume "w = 0"
  then show "sint w = 0" by simp
qed

lemma wg_Add_inc:
  "0 \<le> sint c \<Longrightarrow>
   wg_Add 1 c = (if sint c < 2147483647 then (Returned, c + 1) else (Panicked, c + 1))"
  using sint_max32 [of c] sint_min32 [of c] sint_add1 [of c] sint_add1_wrap [of c]
  by (auto simp: wg_Add_def Let_def)

lemma wg_Add_dec:
  "1 \<le> sint c \<Longrightarrow> wg_Add (- 1) c = (Returned, c - 1)"
  using sint_sub1 [of c] by (simp add: wg_Add_def Let_def)

lemma wg_Add_dec_eq: "wg_Add (- 1) c = (if sint (c - 1) < 0 then Panicked else Returned, c - 1)"
  by (simp add: wg_Add_def Let_def)

lemma outstanding_snoc:
  "outstanding (gs @ [g]) = outstanding gs + (if running g then 1 else 0)"
  by (simp add: outstanding_def)

lemma outstanding_update:
  "i < length gs \<Longrightarrow>
   outstanding (gs[i := g]) + (if running (gs ! i) then 1 else 0) =
   outstanding gs + (if running g then 1 else 0)"
proof (induction gs arbitrary: i)
  case Nil
  then show ?case by simp
next
  case (Cons x xs)
  show ?case
  proof (cases i)
    case 0
    then show ?thesis by (simp add: outstanding_def)
  next
    case (Suc j)
    with Cons.prems have "j < length xs" by simp
    from Cons.IH [OF this] Suc show ?thesis by (simp add: outstanding_def)
  qed
qed

lemma weight_update:
  "i < length gs \<Longrightarrow>
   sum_list (map weight (gs[i := g])) + weight (gs ! i) = sum_list (map weight gs) + weight g"
proof (induction gs arbitrary: i)
  case Nil
  then show ?case by simp
next
  case (Cons x xs)
  show ?case
  proof (cases i)
    case 0
    then show ?thesis by simp
  next
    case (Suc j)
    with Cons.prems have "j < length xs" by simp
    from Cons.IH [OF this] Suc show ?thesis by simp
  qed
qed

lemma outstanding_zero: "outstanding gs = 0 \<Longrightarrow> gs = replicate (length gs) Exited"
proof (induction gs)
  case Nil
  then show ?case by simp
next
  case (Cons g gs)
  then show ?case by (cases g) (simp_all add: outstanding_def split: if_splits)
qed

lemma outstanding_pos:
  "outstanding gs \<noteq> 0 \<Longrightarrow> \<exists>i<length gs. running (gs ! i)"
proof -
  assume "outstanding gs \<noteq> 0"
  then have "filter running gs \<noteq> []" by (simp add: outstanding_def)
  then obtain g where "g \<in> set gs" "running g"
    by (metis filter_False)
  then show ?thesis by (auto simp: in_set_conv_nth)
qed

lemma step_cases:
  assumes "step c s = Some s'"
  obtains
    (run) t rest where "c = Main" "main s = Run t # rest"
      "s' = safeWaitGroupImpl_Run t (s\<lparr>main := rest\<rparr>)"
  | (wait) rest where "c = Main" "main s = Wait # rest" "wg s = 0" "s' = s\<lparr>main := rest\<rparr>"
  | (task) i t m where "c = Go i" "i < length (goroutines s)" "goroutines s ! i = Spawned t"
      "t (shared s) = (Returned, m)"
      "s' = s\<lparr>shared := m, goroutines := (goroutines s)[i := TaskDone]\<rparr>"
  | (panic) i t m where "c = Go i" "i < length (goroutines s)" "goroutines s ! i = Spawned t"
      "t (shared s) = (Panicked, m)" "s' = s\<lparr>shared := m, crashed := True\<rparr>"
  | (decr) i where "c = Go i" "i < length (goroutines s)" "goroutines s ! i = TaskDone"
      "\<not> sint (wg s - 1) < 0" "s' = s\<lparr>wg := wg s - 1, goroutines := (goroutines s)[i := Exited]\<rparr>"
  | (underflow) i where "c = Go i" "i < length (goroutines s)" "goroutines s ! i = TaskDone"
      "sint (wg s - 1) < 0" "s' = s\<lparr>wg := wg s - 1, crashed := True\<rparr>"
proof (cases c)
  case Main
  with assms show ?thesis
    by (auto simp: step_def safeWaitGroupImpl_Wait_def
        split: if_splits list.splits stmt.splits intro: run wait)
next
  case (Go i)
  with assms have g: "goroutine_step i s = Some s'" and i: "i < length (goroutines s)"
    by (auto simp: step_def goroutine_step_def split: if_splits)
  show ?thesis
  proof (cases "goroutines s ! i")
    case (Spawned t)
    obtain r m where tm: "t (shared s) = (r, m)" by (cases "t (shared s)")
    show ?thesis
    proof (cases r)
      case Returned
      with g i Spawned tm Go show ?thesis
        by (intro task [of i t m]) (simp_all add: goroutine_step_def)
    next
      case Panicked
      with g i Spawned tm Go show ?thesis
        by (intro panic [of i t m]) (simp_all add: goroutine_step_def)
    qed
  next
    case TaskDone
    show ?thesis
    proof (cases "sint (wg s - 1) < 0")
      case True
      with g i TaskDone Go show ?thesis
        by (intro underflow [of i]) (simp_all add: goroutine_step_def wg_Add_dec_eq)
    next
      case False
      with g i TaskDone Go show ?thesis
        by (intro decr [of i]) (simp_all add: goroutine_step_def wg_Add_dec_eq)
    qed
  next
    case Exited
    with g i show ?thesis by (simp add: goroutine_step_def)
  qed
qed

lemma outstanding_le_length: "outstanding gs \<le> length gs"
  by (simp add: outstanding_def)

lemma running_outstanding:
  assumes "i < length gs" and "running (gs ! i)"
  shows "1 \<le> outstanding gs"
  using outstanding_update [OF assms(1), of Exited] assms(2) by simp

lemma step_not_crashed: "step c s = Some s' \<Longrightarrow> \<not> crashed s"
  by (auto simp: step_def split: if_splits)

lemma Run_counted:
  assumes "sint (wg s) = int (outstanding (goroutines s))"
  shows "safeWaitGroupImpl_Run t s =
    (if outstanding (goroutines s) < 2147483647
     then s\<lparr>wg := wg s + 1, goroutines := goroutines s @ [Spawned t]\<rparr>
     else s\<lparr>wg := wg s + 1, crashed := True\<rparr>)"
proof -
  from assms have "0 \<le> sint (wg s)" by simp
  from wg_Add_inc [OF this] assms show ?thesis
    by (simp add: safeWaitGroupImpl_Run_def)
qed

lemma step_counter:
  assumes "step c s = Some s'" and "sint (wg s) = int (outstanding (goroutines s))"
  shows "crashed s' \<or> sint (wg s') = int (outstanding (goroutines s'))"
  using assms(1)
proof (cases rule: step_cases)
  case (run t rest)
  have "sint (wg (s\<lparr>main := rest\<rparr>)) = int (outstanding (goroutines (s\<lparr>main := rest\<rparr>)))"
    using assms(2) by simp
  from Run_counted [OF this, of t] run(3) assms(2) show ?thesis
    by (simp add: outstanding_snoc sint_add1 split: if_splits)
next
  case (wait rest)
  with assms(2) show ?thesis by simp
next
  case (task i t m)
  with assms(2) outstanding_update [of i "goroutines s" TaskDone] show ?thesis by simp
next
  case (panic i t m)
  then show ?thesis by simp
next
  case (decr i)
  from running_outstanding [of i "goroutines s"] decr(2,3) assms(2)
  have "1 \<le> sint (wg s)" by simp
  from sint_sub1 [OF this] decr assms(2) outstanding_update [of i "goroutines s" Exited]
  show ?thesis by simp
next
  case (underflow i)
  then show ?thesis by simp
qed

lemma exec_invariant:
  assumes "exec sched s0 = Some s" and "P s0"
    and "\<And>c s s'. P s \<Longrightarrow> step c s = Some s' \<Longrightarrow> P s'"
  shows "P s"
  using assms(1,2)
proof (induction sched arbitrary: s0)
  case Nil
  then show ?case by simp
next
  case (Cons c cs)
  then obtain s1 where 1: "step c s0 = Some s1" and 2: "exec cs s1 = Some s"
    by (auto split: option.splits)
  from assms(3) [OF Cons.prems(2) 1] have "P s1" .
  from Cons.IH [OF 2 this] show ?case .
qed

lemma exec_counter:
  assumes "exec sched (NewSafeWaitGroup m0 stmts) = Some s"
  shows "crashed s \<or> sint (wg s) = int (outstanding (goroutines s))"
proof (rule exec_invariant [OF assms,
      where P = "\<lambda>s. crashed s \<or> sint (wg s) = int (outstanding (goroutines s))"])
  show "crashed (NewSafeWaitGroup m0 stmts) \<or>
      sint (wg (NewSafeWaitGroup m0 stmts)) =
      int (outstanding (goroutines (NewSafeWaitGroup m0 stmts)))"
    by (simp add: NewSafeWaitGroup_def outstanding_def)
next
  fix c and s s' :: "'a program"
  assume "crashed s \<or> sint (wg s) = int (outstanding (goroutines s))"
    and st: "step c s = Some s'"
  with step_not_crashed [OF st] have "sint (wg s) = int (outstanding (goroutines s))" by simp
  from step_counter [OF st this]
  show "crashed s' \<or> sint (wg s') = int (outstanding (goroutines s'))" .
qed

lemma submitted_init: "submitted tasks (RunGroup tasks m0)"
  by (simp add: submitted_def RunGroup_def NewSafeWaitGroup_def outstanding_def)

lemma steps_left_init: "steps_left (RunGroup tasks m0) = 3 * length tasks + 3"
  by (simp add: steps_left_def RunGroup_def NewSafeWaitGroup_def)

lemma run_group_step:
  assumes inv: "submitted tasks s" and mem: "normal_on I tasks \<longrightarrow> I (shared s)"
    and st: "step c s = Some s'"
  shows "submitted tasks s' \<and> (normal_on I tasks \<longrightarrow> I (shared s')) \<and>
           steps_left s' < steps_left s \<or>
         panicked I tasks s' \<and> steps_left s' \<le> steps_left s"
proof -
  let ?gs = "goroutines s"
  from inv have nc: "\<not> crashed s"
    and wg: "sint (wg s) = int (outstanding ?gs)"
    and len: "length ?gs \<le> length tasks"
    and idx: "\<And>i t. i < length ?gs \<Longrightarrow> ?gs ! i = Spawned t \<Longrightarrow> t = tasks ! i"
    and mn: "if main s = [] then length ?gs = length tasks \<and> wg s = 0
             else main s = map Run (drop (length ?gs) tasks) @ [Wait]"
    by (auto simp: submitted_def)
  from st show ?thesis
  proof (cases rule: step_cases)
    case (run t rest)
    with mn have m: "Run t # rest = map Run (drop (length ?gs) tasks) @ [Wait]" by simp
    have lt: "length ?gs < length tasks"
    proof (rule ccontr)
      assume "\<not> length ?gs < length tasks"
      then have "drop (length ?gs) tasks = []" by simp
      with m show False by simp
    qed
    then have d: "drop (length ?gs) tasks = tasks ! length ?gs # drop (Suc (length ?gs)) tasks"
      by (simp add: Cons_nth_drop_Suc)
    with m have t: "t = tasks ! length ?gs"
      and rest: "rest = map Run (drop (Suc (length ?gs)) tasks) @ [Wait]"
      by simp_all
    have "sint (wg (s\<lparr>main := rest\<rparr>)) = int (outstanding (goroutines (s\<lparr>main := rest\<rparr>)))"
      using wg by simp
    note R = Run_counted [OF this, of t]
    show ?thesis
    proof (cases "outstanding ?gs < 2147483647")
      case True
      with R run(3) have s': "s' = s\<lparr>main := rest, wg := wg s + 1, goroutines := ?gs @ [Spawned t]\<rparr>"
        by simp
      from True wg have w1: "sint (wg s + 1) = int (outstanding ?gs) + 1"
        by (simp add: sint_add1)
      have "submitted tasks s'"
        unfolding submitted_def s'
        using nc w1 lt idx t rest
        by (auto simp: outstanding_snoc nth_append less_Suc_eq)
      moreover have "normal_on I tasks \<longrightarrow> I (shared s')"
        using mem by (simp add: s')
      moreover have "steps_left s' < steps_left s"
        using run(2) by (simp add: s' steps_left_def)
      ultimately show ?thesis by blast
    next
      case False
      with R run(3) have s': "s' = s\<lparr>main := rest, wg := wg s + 1, crashed := True\<rparr>"
        by simp
      from False outstanding_le_length [of ?gs] lt have "2147483648 \<le> length tasks" by simp
      with rest have "panicked I tasks s'"
        by (simp add: panicked_def s')
      moreover have "steps_left s' \<le> steps_left s"
        using run(2) by (simp add: s' steps_left_def)
      ultimately show ?thesis by blast
    qed
  next
    case (wait rest)
    with mn have m: "Wait # rest = map Run (drop (length ?gs) tasks) @ [Wait]" by simp
    then have "drop (length ?gs) tasks = []" and r: "rest = []"
      by (cases "drop (length ?gs) tasks"; simp)+
    with len have "length ?gs = length tasks" by simp
    with wait nc wg idx r have "submitted tasks s'"
      by (simp add: submitted_def)
    moreover have "normal_on I tasks \<longrightarrow> I (shared s')"
      using mem wait by simp
    moreover have "steps_left s' < steps_left s"
      using wait by (simp add: steps_left_def)
    ultimately show ?thesis by blast
  next
    case (task i t m)
    from idx [OF task(2,3)] have "t = tasks ! i" .
    with task(2) len have "t \<in> set tasks" by simp
    with mem task(4) have Im: "normal_on I tasks \<longrightarrow> I m" by (fastforce simp: normal_on_def)
    have o: "outstanding (?gs[i := TaskDone]) = outstanding ?gs"
      using outstanding_update [OF task(2), of TaskDone] task(3) by simp
    have idx': "\<And>j u. j < length ?gs \<Longrightarrow> ?gs[i := TaskDone] ! j = Spawned u \<Longrightarrow> u = tasks ! j"
      using idx task(2) by (auto simp: nth_list_update split: if_splits)
    have "submitted tasks s'"
      unfolding submitted_def task(5)
      using nc wg len idx' mn o by auto
    moreover have "normal_on I tasks \<longrightarrow> I (shared s')"
      using Im by (simp add: task(5))
    moreover have "steps_left s' < steps_left s"
      using weight_update [OF task(2), of TaskDone] task(3,5) by (simp add: steps_left_def)
    ultimately show ?thesis by blast
  next
    case (panic i t m)
    from idx [OF panic(2,3)] have "t = tasks ! i" .
    with panic(2) len have "t \<in> set tasks" by simp
    with mem panic(4) have "\<not> normal_on I tasks" by (fastforce simp: normal_on_def)
    moreover have "main s \<noteq> []"
    proof
      assume "main s = []"
      with mn wg have "outstanding ?gs = 0" by simp
      with running_outstanding [of i ?gs] panic(2,3) show False by simp
    qed
    ultimately have "panicked I tasks s'"
      by (simp add: panicked_def panic(5))
    moreover have "steps_left s' \<le> steps_left s"
      by (simp add: panic(5) steps_left_def)
    ultimately show ?thesis by blast
  next
    case (decr i)
    from running_outstanding [of i ?gs] decr(2,3) wg have pos: "1 \<le> sint (wg s)" by simp
    have o: "outstanding (?gs[i := Exited]) + 1 = outstanding ?gs"
      using outstanding_update [OF decr(2), of Exited] decr(3) by simp
    from pos have ne: "main s \<noteq> []" using mn by auto
    have w1: "sint (wg s - 1) = int (outstanding (?gs[i := Exited]))"
      using sint_sub1 [OF pos] wg o by simp
    have idx': "\<And>j u. j < length ?gs \<Longrightarrow> ?gs[i := Exited] ! j = Spawned u \<Longrightarrow> u = tasks ! j"
      using idx decr(2) by (auto simp: nth_list_update split: if_splits)
    have "submitted tasks s'"
      unfolding submitted_def decr(5)
      using nc w1 len idx' mn ne by auto
    moreover have "normal_on I tasks \<longrightarrow> I (shared s')"
      using mem by (simp add: decr(5))
    moreover have "steps_left s' < steps_left s"
      using weight_update [OF decr(2), of Exited] decr(3,5) by (simp add: steps_left_def)
    ultimately show ?thesis by blast
  next
    case (underflow i)
    from running_outstanding [of i ?gs] underflow(2,3) wg have p: "1 \<le> sint (wg s)" by simp
    from sint_sub1 [OF p] p underflow(4) have False by simp
    then show ?thesis ..
  qed
qed

lemma exec_crashed: "crashed s \<Longrightarrow> exec cs s = Some s' \<Longrightarrow> cs = [] \<and> s' = s"
  by (cases cs) (simp_all add: step_def)

lemma exec_run_group:
  assumes "submitted tasks s0" and "normal_on I tasks \<longrightarrow> I (shared s0)"
    and "exec sched s0 = Some s"
  shows "submitted tasks s \<and> (normal_on I tasks \<longrightarrow> I (shared s)) \<and>
           length sched + steps_left s \<le> steps_left s0 \<or>
         panicked I tasks s \<and> length sched + steps_left s \<le> steps_left s0 + 1"
  using assms
proof (induction sched arbitrary: s0)
  case Nil
  then show ?case by simp
next
  case (Cons c cs)
  then obtain s1 where 1: "step c s0 = Some s1" and 2: "exec cs s1 = Some s"
    by (auto split: option.splits)
  from run_group_step [OF Cons.prems(1,2) 1]
  show ?case
  proof
    assume a: "submitted tasks s1 \<and> (normal_on I tasks \<longrightarrow> I (shared s1)) \<and>
      steps_left s1 < steps_left s0"
    then have "submitted tasks s1" and "normal_on I tasks \<longrightarrow> I (shared s1)" by simp_all
    from Cons.IH [OF this 2] a show ?thesis by auto
  next
    assume a: "panicked I tasks s1 \<and> steps_left s1 \<le> steps_left s0"
    then have "crashed s1" by (simp add: panicked_def)
    from exec_crashed [OF this 2] a show ?thesis by simp
  qed
qed

lemma submitted_progress:
  assumes inv: "submitted tasks s" and m: "main s \<noteq> []"
  shows "\<exists>c. step c s \<noteq> None"
proof -
  let ?gs = "goroutines s"
  from inv m have nc: "\<not> crashed s" and wg: "sint (wg s) = int (outstanding ?gs)"
    and mn: "main s = map Run (drop (length ?gs) tasks) @ [Wait]"
    by (auto simp: submitted_def)
  show ?thesis
  proof (cases "drop (length ?gs) tasks")
    case (Cons t ts)
    with mn nc have "step Main s \<noteq> None" by (simp add: step_def)
    then show ?thesis ..
  next
    case Nil
    with mn have w: "main s = [Wait]" by simp
    show ?thesis
    proof (cases "wg s = 0")
      case True
      with w nc have "step Main s \<noteq> None"
        by (simp add: step_def safeWaitGroupImpl_Wait_def)
      then show ?thesis ..
    next
      case False
      with wg have "outstanding ?gs \<noteq> 0" by (auto simp: sint_zero32 [symmetric])
      from outstanding_pos [OF this] obtain i where i: "i < length ?gs" and r: "running (?gs ! i)"
        by blast
      have "step (Go i) s \<noteq> None"
        using i r nc
        by (cases "?gs ! i")
          (auto simp: step_def goroutine_step_def wg_Add_dec_eq split: prod.splits outcome.splits)
      then show ?thesis ..
    qed
  qed
qed

lemma submitted_final:
  assumes "submitted tasks s" and "main s = []"
  shows "wg s = 0 \<and> goroutines s = replicate (length tasks) Exited \<and> \<not> crashed s"
proof -
  from assms have "wg s = 0" "sint (wg s) = int (outstanding (goroutines s))"
    "length (goroutines s) = length tasks" "\<not> crashed s"
    by (auto simp: submitted_def)
  with outstanding_zero [of "goroutines s"] show ?thesis by simp
qed

lemma run_group:
  assumes "exec sched (RunGroup tasks m0) = Some s"
  shows "length sched \<le> 3 * length tasks + 4"
    and "main s \<noteq> [] \<Longrightarrow> \<not> crashed s \<Longrightarrow> \<exists>c. step c s \<noteq> None"
    and "main s = [] \<Longrightarrow>
           wg s = 0 \<and> goroutines s = replicate (length tasks) Exited \<and> \<not> crashed s"
    and "I m0 \<Longrightarrow> normal_on I tasks \<Longrightarrow> length tasks \<le> 2147483647 \<Longrightarrow>
           \<not> crashed s \<and> I (shared s) \<and> length sched \<le> 3 * length tasks + 3"
proof -
  have i: "normal_on (\<lambda>m. True) tasks \<longrightarrow> (\<lambda>m. True) (shared (RunGroup tasks m0))" by simp
  from exec_run_group [OF submitted_init i assms]
  have a: "submitted tasks s \<and> length sched + steps_left s \<le> 3 * length tasks + 3 \<or>
      crashed s \<and> main s \<noteq> [] \<and> length sched + steps_left s \<le> 3 * length tasks + 4"
    by (auto simp: steps_left_init panicked_def)
  then show "length sched \<le> 3 * length tasks + 4" by auto
  from a show "\<exists>c. step c s \<noteq> None" if "main s \<noteq> []" "\<not> crashed s"
    using that submitted_progress [of tasks s] by blast
  from a show "wg s = 0 \<and> goroutines s = replicate (length tasks) Exited \<and> \<not> crashed s"
    if "main s = []"
    using that submitted_final [of tasks s] by blast
  show "\<not> crashed s \<and> I (shared s) \<and> length sched \<le> 3 * length tasks + 3"
    if "I m0" "normal_on I tasks" "length tasks \<le> 2147483647"
  proof -
    have "normal_on I tasks \<longrightarrow> I (shared (RunGroup tasks m0))"
      using that(1) by (simp add: RunGroup_def NewSafeWaitGroup_def)
    from exec_run_group [OF submitted_init this assms] that(2,3)
    show ?thesis
      by (auto simp: steps_left_init panicked_def submitted_def)
  qed
qed

lemma mainErr_spawn_RunGroup:
  "mainErr_spawn = RunGroup (map star_task [0..<10]) (replicate 10 [])"
  by (simp add: mainErr_spawn_def RunGroup_def Let_def comp_def)

lemma star_tasks_normal: "normal_on (\<lambda>m. length m = 10) (map star_task [0..<10])"
  by (auto simp: normal_on_def star_task_def)

lemma stars_step:
  assumes inv: "submitted (map star_task [0..<10]) s" and len: "length (shared s) = 10"
    and w: "stars_written s" and st: "step c s = Some s'"
  shows "stars_written s'"
proof -
  let ?gs = "goroutines s"
  from inv have le: "length ?gs \<le> 10"
    and idx: "\<And>i t. i < length ?gs \<Longrightarrow> ?gs ! i = Spawned t \<Longrightarrow> t = map star_task [0..<10] ! i"
    by (auto simp: submitted_def)
  from w have wa: "\<forall>j<length ?gs.
      (\<exists>t. ?gs ! j = Spawned t) \<or> shared s ! j = replicate j CHR ''*''"
    by (simp add: stars_written_def)
  then have wr: "\<And>j. j < length ?gs \<Longrightarrow>
      (\<exists>t. ?gs ! j = Spawned t) \<or> shared s ! j = replicate j CHR ''*''"
    by blast
  from st show ?thesis
  proof (cases rule: step_cases)
    case (run t rest)
    then have s': "goroutines s' = ?gs @ [Spawned t] \<or> goroutines s' = ?gs" "shared s' = shared s"
      by (auto simp: safeWaitGroupImpl_Run_def split: prod.splits outcome.splits)
    with wa show ?thesis
      by (auto simp: stars_written_def nth_append)
  next
    case (wait rest)
    with wa show ?thesis by (simp add: stars_written_def)
  next
    case (task i t m)
    from idx [OF task(2,3)] task(2) le have t: "t = star_task i" by simp
    with task(4) task(2) le len have m: "m = (shared s)[i := replicate i CHR ''*'']"
      by (simp add: star_task_def)
    show ?thesis
      unfolding stars_written_def task(5)
    proof (intro allI impI)
      fix j
      assume "j < length (goroutines (s\<lparr>shared := m, goroutines := ?gs[i := TaskDone]\<rparr>))"
      then have j: "j < length ?gs" by simp
      show "(\<exists>t. goroutines (s\<lparr>shared := m, goroutines := ?gs[i := TaskDone]\<rparr>) ! j = Spawned t) \<or>
            shared (s\<lparr>shared := m, goroutines := ?gs[i := TaskDone]\<rparr>) ! j = replicate j CHR ''*''"
      proof (cases "j = i")
        case True
        with m task(2) le len show ?thesis by simp
      next
        case False
        with wr [OF j] m show ?thesis by simp
      qed
    qed
  next
    case (panic i t m)
    from idx [OF panic(2,3)] panic(2) le have "t = star_task i" by simp
    with panic(4) have "m = shared s" by (simp add: star_task_def split: if_splits)
    with panic(5) wa show ?thesis by (simp add: stars_written_def)
  next
    case (decr i)
    show ?thesis
      unfolding stars_written_def decr(5)
    proof (intro allI impI)
      fix j
      assume "j < length (goroutines (s\<lparr>wg := wg s - 1, goroutines := ?gs[i := Exited]\<rparr>))"
      then have j: "j < length ?gs" by simp
      show "(\<exists>t. goroutines (s\<lparr>wg := wg s - 1, goroutines := ?gs[i := Exited]\<rparr>) ! j = Spawned t) \<or>
            shared (s\<lparr>wg := wg s - 1, goroutines := ?gs[i := Exited]\<rparr>) ! j = replicate j CHR ''*''"
      proof (cases "j = i")
        case True
        with wr [OF j] decr(3) show ?thesis by simp
      next
        case False
        with wr [OF j] show ?thesis by simp
      qed
    qed
  next
    case (underflow i)
    with wa show ?thesis by (simp add: stars_written_def)
  qed
qed

lemma exec_stars:
  assumes "exec sched mainErr_spawn = Some s"
  shows "submitted (map star_task [0..<10]) s \<and> length (shared s) = 10 \<and> stars_written s"
proof (rule exec_invariant [OF assms, where
      P = "\<lambda>s. submitted (map star_task [0..<10]) s \<and> length (shared s) = 10 \<and> stars_written s"])
  show "submitted (map star_task [0..<10]) mainErr_spawn \<and>
      length (shared mainErr_spawn) = 10 \<and> stars_written mainErr_spawn"
    unfolding mainErr_spawn_RunGroup
    by (simp add: submitted_init) (simp add: stars_written_def RunGroup_def NewSafeWaitGroup_def)
next
  fix c and s s' :: "string list program"
  assume a: "submitted (map star_task [0..<10]) s \<and> length (shared s) = 10 \<and> stars_written s"
    and st: "step c s = Some s'"
  then have inv: "submitted (map star_task [0..<10]) s" and len: "length (shared s) = 10"
    and w: "stars_written s" by simp_all
  have mem: "normal_on (\<lambda>m. length m = 10) (map star_task [0..<10]) \<longrightarrow> length (shared s) = 10"
    using len by simp
  from run_group_step [OF inv mem st] star_tasks_normal
  have "submitted (map star_task [0..<10]) s'" and "length (shared s') = 10"
    by (auto simp: panicked_def)
  with stars_step [OF inv len w st]
  show "submitted (map star_task [0..<10]) s' \<and> length (shared s') = 10 \<and> stars_written s'"
    by simp
qed

lemma stars_literal:
  "map (\<lambda>i. replicate i CHR ''*'') [0..<10] =
     [[], ''*'', ''**'', ''***'', ''****'', ''*****'', ''******'', ''*******'', ''********'',
      ''*********'']"
  by code_simp

lemma stars_final:
  assumes "exec sched mainErr_spawn = Some s" and "main s = []"
  shows "shared s =
     [[], ''*'', ''**'', ''***'', ''****'', ''*****'', ''******'', ''*******'', ''********'',
      ''*********'']"
proof -
  let ?tasks = "map star_task [0..<10]"
  from exec_stars [OF assms(1)]
  have inv: "submitted ?tasks s" and len: "length (shared s) = 10" and w: "stars_written s"
    by simp_all
  from submitted_final [OF inv assms(2)] have gs: "goroutines s = replicate 10 Exited" by simp
  have "shared s = map (\<lambda>i. replicate i CHR ''*'') [0..<10]"
  proof (rule nth_equalityI)
    show "length (shared s) = length (map (\<lambda>i. replicate i CHR ''*'') [0..<10])"
      using len by simp
  next
    fix i
    assume "i < length (shared s)"
    with len have i: "i < 10" by simp
    with w gs have "shared s ! i = replicate i CHR ''*''"
      by (auto simp: stars_written_def)
    with i show "shared s ! i = map (\<lambda>i. replicate i CHR ''*'') [0..<10] ! i"
      by simp
  qed
  then show ?thesis by (simp only: stars_literal)
qed

text \<open>
  C9. Any number of tasks, whatever they do, submitted with \<^verbatim>\<open>Run\<close> and followed by
  \<^verbatim>\<open>Wait\<close>, under every schedule. The schedule is finite (at most three steps per
  task and four more); a program that has not panicked is never stuck before \<^verbatim>\<open>Wait\<close>
  has returned; and when \<^verbatim>\<open>Wait\<close> has returned, the counter is zero, nothing has
  panicked and each of the goroutines, one per task, has run to its end, so every task
  has completed. Nothing panics when the tasks return normally (as long as the shared
  memory satisfies a property \<open>I\<close> that they keep) and there are at most \<open>2^31 - 1\<close> of
  them. For the ten tasks of \<^verbatim>\<open>mainErr\<close> nothing panics, and when \<^verbatim>\<open>Wait\<close> has
  returned the sequence holds the strings of zero to nine asterisks.
\<close>

theorem spawner_wait:
  "(\<forall>tasks m0 sched s.
      exec sched (RunGroup tasks m0) = Some s \<longrightarrow>
        length sched \<le> 3 * length tasks + 4 \<and>
        (main s \<noteq> [] \<longrightarrow> \<not> crashed s \<longrightarrow> (\<exists>c. step c s \<noteq> None)) \<and>
        (main s = [] \<longrightarrow>
           wg s = 0 \<and> goroutines s = replicate (length tasks) Exited \<and> \<not> crashed s) \<and>
        (\<forall>I. I m0 \<longrightarrow> normal_on I tasks \<longrightarrow> length tasks \<le> 2147483647 \<longrightarrow> \<not> crashed s)) \<and>
   (\<forall>sched s.
      exec sched mainErr_spawn = Some s \<longrightarrow>
        length sched \<le> 33 \<and> \<not> crashed s \<and>
        (main s \<noteq> [] \<longrightarrow> (\<exists>c. step c s \<noteq> None)) \<and>
        (main s = [] \<longrightarrow>
           wg s = 0 \<and> goroutines s = replicate 10 Exited \<and>
           shared s =
             [[], ''*'', ''**'', ''***'', ''****'', ''*****'', ''******'', ''*******'',
              ''********'', ''*********'']))"
proof (intro conjI allI impI)
  fix tasks :: "'a task list" and m0 sched s
  assume e: "exec sched (RunGroup tasks m0) = Some s"
  show "length sched \<le> 3 * length tasks + 4"
    by (rule run_group(1) [OF e])
  show "\<exists>c. step c s \<noteq> None" if "main s \<noteq> []" "\<not> crashed s"
    by (rule run_group(2) [OF e that])
  show "wg s = 0" "goroutines s = replicate (length tasks) Exited" "\<not> crashed s" if "main s = []"
    using run_group(3) [OF e that] by simp_all
  show "\<not> crashed s" if "I m0" "normal_on I tasks" "length tasks \<le> 2147483647" for I
    using run_group(4) [OF e that] by simp
next
  fix sched s
  assume e: "exec sched mainErr_spawn = Some s"
  note e' = e [unfolded mainErr_spawn_RunGroup]
  have l: "length (replicate 10 ([]::string)) = 10" by simp
  have n: "length (map star_task [0..<10]) \<le> 2147483647" by simp
  note safe = run_group(4) [OF e', where I = "\<lambda>m. length m = 10", OF l star_tasks_normal n]
  from safe show "length sched \<le> 33" by simp
  from safe show nc: "\<not> crashed s" by simp
  show "\<exists>c. step c s \<noteq> None" if "main s \<noteq> []"
    by (rule run_group(2) [OF e' that nc])
  show "wg s = 0" "goroutines s = replicate 10 Exited" if "main s = []"
    using run_group(3) [OF e' that] by simp_all
  show "shared s =
     [[], ''*'', ''**'', ''***'', ''****'', ''*****'', ''******'', ''*******'', ''********'',
      ''*********'']" if "main s = []"
    by (rule stars_final [OF e that])
qed

lemmas spawn_defs =
  step_def goroutine_step_def safeWaitGroupImpl_Run_def safeWaitGroupImpl_Wait_def wg_Add_def

lemma exec_append:
  "exec (xs @ ys) s = (case exec xs s of None \<Rightarrow> None | Some s' \<Rightarrow> exec ys s')"
  by (induction xs arbitrary: s) (simp_all split: option.splits)

lemma sint_of_nat32: "n \<le> 2147483647 \<Longrightarrow> sint (of_nat n :: 32 word) = int n"
proof -
  assume "n \<le> 2147483647"
  then have "- (2 ^ 31) \<le> int n" and "int n < 2 ^ 31" by simp_all
  then show ?thesis
    by (simp add: signed_of_nat signed_take_bit_int_eq_self)
qed

lemma outstanding_spawned: "outstanding (replicate n (Spawned t)) = n"
  by (simp add: outstanding_def)

lemma exec_submissions:
  "n \<le> 2147483647 \<Longrightarrow> n \<le> N \<Longrightarrow>
   exec (replicate n Main) (NewSafeWaitGroup m (map Run (replicate N t) @ [Wait])) =
     Some \<lparr>wg = of_nat n, shared = m, main = map Run (replicate (N - n) t) @ [Wait],
           goroutines = replicate n (Spawned t), crashed = False\<rparr>"
proof (induction n)
  case 0
  then show ?case by (simp add: NewSafeWaitGroup_def)
next
  case (Suc n)
  let ?s = "\<lparr>wg = of_nat n, shared = m, main = map Run (replicate (N - n) t) @ [Wait],
      goroutines = replicate n (Spawned t), crashed = False\<rparr>"
  from Suc.prems have n: "n < 2147483647" "n \<le> N" "n \<le> 2147483647" by simp_all
  from Suc.prems obtain k where k: "N - n = Suc k" "N - Suc n = k"
    by (cases "N - n") simp_all
  have c: "sint (wg ?s) = int (outstanding (goroutines ?s))"
    using sint_of_nat32 [OF n(3)] by (simp add: outstanding_spawned)
  have "step Main ?s = Some (safeWaitGroupImpl_Run t (?s\<lparr>main := map Run (replicate k t) @ [Wait]\<rparr>))"
    by (simp add: step_def k)
  also have "safeWaitGroupImpl_Run t (?s\<lparr>main := map Run (replicate k t) @ [Wait]\<rparr>) =
      \<lparr>wg = of_nat (Suc n), shared = m, main = map Run (replicate (N - Suc n) t) @ [Wait],
       goroutines = replicate (Suc n) (Spawned t), crashed = False\<rparr>"
    using c n(1)
    by (subst Run_counted) (simp_all add: outstanding_spawned k replicate_append_same)
  finally have st: "step Main ?s =
      Some \<lparr>wg = of_nat (Suc n), shared = m, main = map Run (replicate (N - Suc n) t) @ [Wait],
       goroutines = replicate (Suc n) (Spawned t), crashed = False\<rparr>" .
  have "replicate (Suc n) Main = replicate n Main @ [Main]"
    by (simp add: replicate_append_same)
  then show ?case
    using Suc.IH [OF n(3) n(2)] st by (simp only: exec_append) simp
qed

lemma exec_crowded:
  "exec (replicate max_int32 Main)
     (NewSafeWaitGroup () (map Run (replicate (Suc max_int32) idle_task) @ [Wait])) = Some crowded"
proof -
  have "max_int32 \<le> 2147483647" "max_int32 \<le> Suc max_int32"
    by (simp_all add: max_int32_def)
  from exec_submissions [OF this, of "()" idle_task]
  have "exec (replicate max_int32 Main)
      (NewSafeWaitGroup () (map Run (replicate (Suc max_int32) idle_task) @ [Wait])) =
    Some \<lparr>wg = of_nat max_int32, shared = (), main = [Run idle_task, Wait],
          goroutines = replicate max_int32 (Spawned idle_task), crashed = False\<rparr>"
    by simp
  moreover have "(of_nat max_int32 :: 32 word) = 2147483647"
    by (simp add: max_int32_def)
  ultimately show ?thesis by (simp add: crowded_def)
qed

lemma exec_mainErr_schedule:
  "exec mainErr_schedule mainErr_spawn =
     Some \<lparr>wg = 0,
           shared = [[], ''*'', ''**'', ''***'', ''****'', ''*****'', ''******'', ''*******'',
                     ''********'', ''*********''],
           main = [], goroutines = replicate 10 Exited, crashed = False\<rparr>"
  by (simp add: mainErr_schedule_def mainErr_spawn_def NewSafeWaitGroup_def Let_def spawn_defs
      star_task_def upt_rec numeral_eq_Suc)

lemma exec_idle_schedule:
  "exec [Main, Main, Go 1, Go 0, Go 0, Go 1, Main] (RunGroup [idle_task, idle_task] ()) =
     Some \<lparr>wg = 0, shared = (), main = [], goroutines = [Exited, Exited], crashed = False\<rparr>"
  by (simp add: RunGroup_def NewSafeWaitGroup_def spawn_defs idle_task_def)

theorem spawner_wait_witness:
  "map_option wg (exec [Main, Main, Go 1, Go 0, Go 0, Go 1, Main]
     (RunGroup [idle_task, idle_task] ())) = Some 0 \<and>
   map_option goroutines (exec [Main, Main, Go 1, Go 0, Go 0, Go 1, Main]
     (RunGroup [idle_task, idle_task] ())) = Some [Exited, Exited] \<and>
   map_option crashed (exec [Main, Main, Go 1, Go 0, Go 0, Go 1, Main]
     (RunGroup [idle_task, idle_task] ())) = Some False \<and>
   map_option wg (exec mainErr_schedule mainErr_spawn) = Some 0 \<and>
   map_option shared (exec mainErr_schedule mainErr_spawn) =
     Some [[], ''*'', ''**'', ''***'', ''****'', ''*****'', ''******'', ''*******'',
           ''********'', ''*********'']"
proof -
  let ?s1 = "\<lparr>wg = 0, shared = (), main = [], goroutines = [Exited, Exited], crashed = False\<rparr>
      :: unit program"
  let ?s2 = "\<lparr>wg = 0,
      shared = [[], ''*'', ''**'', ''***'', ''****'', ''*****'', ''******'', ''*******'',
                ''********'', ''*********''],
      main = [], goroutines = replicate 10 Exited, crashed = False\<rparr> :: string list program"
  have m1: "main ?s1 = []" and m2: "main ?s2 = []" by simp_all
  have i: "(\<lambda>m. True) ()" by simp
  have n: "normal_on (\<lambda>m. True) [idle_task, idle_task]"
    by (simp add: normal_on_def idle_task_def)
  have l: "length [idle_task, idle_task] \<le> 2147483647" by simp
  note g = spawner_wait [THEN conjunct1, THEN spec, THEN spec, THEN spec, THEN spec, THEN mp,
      OF exec_idle_schedule]
  from g [THEN conjunct2, THEN conjunct2, THEN conjunct1, THEN mp, OF m1]
  have "wg ?s1 = 0 \<and> goroutines ?s1 = replicate (length [idle_task, idle_task]) Exited \<and>
      \<not> crashed ?s1" .
  moreover from g [THEN conjunct2, THEN conjunct2, THEN conjunct2, THEN spec, THEN mp, THEN mp,
      THEN mp, OF i n l]
  have "\<not> crashed ?s1" .
  moreover from spawner_wait [THEN conjunct2, THEN spec, THEN spec, THEN mp,
      OF exec_mainErr_schedule]
  have "wg ?s2 = 0 \<and>
      shared ?s2 = [[], ''*'', ''**'', ''***'', ''****'', ''*****'', ''******'', ''*******'',
                    ''********'', ''*********'']"
    using m2 by blast
  ultimately show ?thesis
    by (simp only: exec_idle_schedule exec_mainErr_schedule option.map) simp
qed

text \<open>
  C3, as the code has it. In every state that a program reaches from a new wait group
  without a panic, the counter is the number of submitted tasks whose goroutine has not
  run to its end: \<^verbatim>\<open>Run\<close>, while fewer than \<open>2^31 - 1\<close> tasks are unfinished, adds one
  to the counter and starts the goroutine; the task, when it returns normally, leaves
  the counter alone; the goroutine's last statement then subtracts one, without a
  panic; a goroutine that has run to its end does nothing more. A \<^verbatim>\<open>Run\<close> that finds
  \<open>2^31 - 1\<close> tasks unfinished panics, the counter wrapping around, and starts no
  goroutine.
\<close>

theorem run_counter_matched:
  assumes "exec sched (NewSafeWaitGroup m0 stmts) = Some s" and "\<not> crashed s"
  shows "sint (wg s) = int (outstanding (goroutines s)) \<and>
    (\<forall>t rest. main s = Run t # rest \<longrightarrow> outstanding (goroutines s) < 2147483647 \<longrightarrow>
       step Main s =
         Some (s\<lparr>main := rest, wg := wg s + 1, goroutines := goroutines s @ [Spawned t]\<rparr>)) \<and>
    (\<forall>t rest. main s = Run t # rest \<longrightarrow> \<not> outstanding (goroutines s) < 2147483647 \<longrightarrow>
       step Main s = Some (s\<lparr>main := rest, wg := wg s + 1, crashed := True\<rparr>)) \<and>
    (\<forall>i t m. i < length (goroutines s) \<longrightarrow> goroutines s ! i = Spawned t \<longrightarrow>
       t (shared s) = (Returned, m) \<longrightarrow>
       step (Go i) s = Some (s\<lparr>shared := m, goroutines := (goroutines s)[i := TaskDone]\<rparr>)) \<and>
    (\<forall>i. i < length (goroutines s) \<longrightarrow> goroutines s ! i = TaskDone \<longrightarrow>
       step (Go i) s = Some (s\<lparr>wg := wg s - 1, goroutines := (goroutines s)[i := Exited]\<rparr>)) \<and>
    (\<forall>i. i < length (goroutines s) \<longrightarrow> goroutines s ! i = Exited \<longrightarrow> step (Go i) s = None)"
proof -
  let ?gs = "goroutines s"
  have c: "sint (wg s) = int (outstanding ?gs)"
    using exec_counter [OF assms(1)] assms(2) by simp
  have r: "step Main s =
      Some (if outstanding ?gs < 2147483647
        then s\<lparr>main := rest, wg := wg s + 1, goroutines := ?gs @ [Spawned t]\<rparr>
        else s\<lparr>main := rest, wg := wg s + 1, crashed := True\<rparr>)"
    if "main s = Run t # rest" for t rest
  proof -
    have "sint (wg (s\<lparr>main := rest\<rparr>)) = int (outstanding (goroutines (s\<lparr>main := rest\<rparr>)))"
      using c by simp
    from Run_counted [OF this, of t] that assms(2) show ?thesis
      by (simp add: step_def)
  qed
  have t: "\<forall>i t m. i < length ?gs \<longrightarrow> ?gs ! i = Spawned t \<longrightarrow> t (shared s) = (Returned, m) \<longrightarrow>
       step (Go i) s = Some (s\<lparr>shared := m, goroutines := ?gs[i := TaskDone]\<rparr>)"
    using assms(2) by (simp add: step_def goroutine_step_def)
  have e: "step (Go i) s = Some (s\<lparr>wg := wg s - 1, goroutines := ?gs[i := Exited]\<rparr>)"
    if "i < length ?gs" "?gs ! i = TaskDone" for i
  proof -
    from running_outstanding [of i ?gs] that c have "1 \<le> sint (wg s)" by simp
    from wg_Add_dec [OF this] that assms(2) show ?thesis
      by (simp add: step_def goroutine_step_def)
  qed
  have x: "\<forall>i. i < length ?gs \<longrightarrow> ?gs ! i = Exited \<longrightarrow> step (Go i) s = None"
    by (simp add: step_def goroutine_step_def)
  from c r t e x show ?thesis by simp
qed

lemma crowded_simps:
  "main crowded = Run idle_task # [Wait]" "\<not> crashed crowded"
  "outstanding (goroutines crowded) = 2147483647"
  by (simp_all add: crowded_def outstanding_spawned max_int32_def)

theorem run_counter_matched_witness:
  "step Main (NewSafeWaitGroup () [Run idle_task, Wait]) =
     Some \<lparr>wg = 1, shared = (), main = [Wait], goroutines = [Spawned idle_task], crashed = False\<rparr> \<and>
   step (Go 0)
     \<lparr>wg = 1, shared = (), main = [Wait], goroutines = [Spawned idle_task], crashed = False\<rparr> =
     Some \<lparr>wg = 1, shared = (), main = [Wait], goroutines = [TaskDone], crashed = False\<rparr> \<and>
   step (Go 0)
     \<lparr>wg = 1, shared = (), main = [Wait], goroutines = [TaskDone], crashed = False\<rparr> =
     Some \<lparr>wg = 0, shared = (), main = [Wait], goroutines = [Exited], crashed = False\<rparr> \<and>
   step (Go 0)
     (\<lparr>wg = 0, shared = (), main = [Wait], goroutines = [Exited], crashed = False\<rparr>
        :: unit program) = None \<and>
   sint (wg (\<lparr>wg = 0, shared = (), main = [Wait], goroutines = [Exited], crashed = False\<rparr>
        :: unit program)) =
     int (outstanding ([Exited] :: unit goroutine list)) \<and>
   step Main crowded = Some (crowded\<lparr>main := [Wait], wg := wg crowded + 1, crashed := True\<rparr>) \<and>
   sint (wg crowded + 1) = - 2147483648"
proof -
  let ?p = "NewSafeWaitGroup () [Run idle_task, Wait]"
  let ?s1 = "\<lparr>wg = 1, shared = (), main = [Wait], goroutines = [Spawned idle_task],
      crashed = False\<rparr>"
  let ?s2 = "\<lparr>wg = 1, shared = (), main = [Wait], goroutines = [TaskDone], crashed = False\<rparr>
      :: unit program"
  let ?s3 = "\<lparr>wg = 0, shared = (), main = [Wait], goroutines = [Exited], crashed = False\<rparr>
      :: unit program"
  have e0: "exec [] ?p = Some ?p" by simp
  have e1: "exec [Main] ?p = Some ?s1"
    by (simp add: NewSafeWaitGroup_def spawn_defs)
  have e2: "exec [Main, Go 0] ?p = Some ?s2"
    by (simp add: NewSafeWaitGroup_def spawn_defs idle_task_def)
  have e3: "exec [Main, Go 0, Go 0] ?p = Some ?s3"
    by (simp add: NewSafeWaitGroup_def spawn_defs idle_task_def)
  have n0: "\<not> crashed ?p" by (simp add: NewSafeWaitGroup_def)
  have n1: "\<not> crashed ?s1" and n2: "\<not> crashed ?s2" and n3: "\<not> crashed ?s3" by simp_all
  have i: "idle_task (shared ?s1) = (Returned, ())" by (simp add: idle_task_def)
  from run_counter_matched [OF e0 n0, THEN conjunct2, THEN conjunct1, rule_format,
      of idle_task "[Wait]"]
  have "step Main ?p = Some ?s1"
    by (simp add: NewSafeWaitGroup_def outstanding_def)
  moreover from run_counter_matched [OF e1 n1, THEN conjunct2, THEN conjunct2, THEN conjunct2,
      THEN conjunct1, rule_format, of 0 idle_task "()"] i
  have "step (Go 0) ?s1 = Some ?s2" by simp
  moreover from run_counter_matched [OF e2 n2, THEN conjunct2, THEN conjunct2, THEN conjunct2,
      THEN conjunct2, THEN conjunct1, rule_format, of 0]
  have "step (Go 0) ?s2 = Some ?s3" by simp
  moreover from run_counter_matched [OF e3 n3, THEN conjunct2, THEN conjunct2, THEN conjunct2,
      THEN conjunct2, THEN conjunct2, rule_format, of 0]
  have "step (Go 0) ?s3 = None" by simp
  moreover from run_counter_matched [OF e3 n3, THEN conjunct1]
  have "sint (wg ?s3) = int (outstanding ([Exited] :: unit goroutine list))" by simp
  moreover from run_counter_matched [OF exec_crowded crowded_simps(2), THEN conjunct2,
      THEN conjunct2, THEN conjunct1, rule_format, of idle_task "[Wait]"]
  have "step Main crowded = Some (crowded\<lparr>main := [Wait], wg := wg crowded + 1, crashed := True\<rparr>)"
    by (simp add: crowded_simps)
  moreover have "sint (wg crowded + 1) = - 2147483648"
    by (simp add: crowded_def)
  ultimately show ?thesis by blast
qed

text \<open>
  C3, as the specification states it (the decrement also runs when the task panics),
  fails: the goroutine has no deferred call, so a task that panics ends the program with
  the counter still at one, and neither goroutine moves again.
\<close>

theorem run_decrement_on_panic_counterexample:
  "exec [Main, Go 0] (NewSafeWaitGroup () [Run panicking_task, Wait]) =
     Some \<lparr>wg = 1, shared = (), main = [Wait], goroutines = [Spawned panicking_task],
           crashed = True\<rparr> \<and>
   step (Go 0) \<lparr>wg = 1, shared = (), main = [Wait], goroutines = [Spawned panicking_task],
           crashed = True\<rparr> = None \<and>
   step Main \<lparr>wg = 1, shared = (), main = [Wait], goroutines = [Spawned panicking_task],
           crashed = True\<rparr> = None"
  by (simp add: NewSafeWaitGroup_def spawn_defs panicking_task_def)

end
